(* ===== verification/Prelude.thy ===== *)
theory Prelude
  imports Complex_Main
begin

text \<open>
  Shared vocabulary of the bank-server development: the Python exceptions the
  server can raise (each a value of \<open>py_error\<close>, so that a raise is a branch of
  the model), Python strings as HOL strings, the \<open>named_theorems\<close> collections
  the component theories fill, and generic lemmas on sums and maps.
  A Python \<open>str\<close> is modelled as a list of \<open>char\<close>: one \<open>char\<close> per code
  point, so the model covers text whose code points are below 256.
\<close>

section \<open>Python exceptions as values\<close>

datatype py_error =
    KeyError
  | IndexError
  | ValueError
  | OSError
  | UnicodeDecodeError
  | JSONDecodeError

type_synonym 'a py_result = "py_error + 'a"

type_synonym pystr = string

named_theorems model_simps
  "equations of the model that the component proofs unfold"

named_theorems py_invs
  "preservation lemmas of the model's invariants"

section \<open>Generic lemmas\<close>

text \<open>Python's \<open>s[i]\<close> on a list: \<open>IndexError\<close> out of range.\<close>

definition py_index :: "'a list \<Rightarrow> nat \<Rightarrow> 'a py_result" where
  "py_index xs i = (if i < length xs then Inr (xs ! i) else Inl IndexError)"

text \<open>Python's \<open>d[k]\<close> on a dict: \<open>KeyError\<close> for a missing key.\<close>

definition py_lookup :: "('k \<rightharpoonup> 'v) \<Rightarrow> 'k \<Rightarrow> 'v py_result" where
  "py_lookup m k = (case m k of None \<Rightarrow> Inl KeyError | Some v \<Rightarrow> Inr v)"

lemma py_index_Inr_iff [simp]:
  "py_index xs i = Inr x \<longleftrightarrow> i < length xs \<and> xs ! i = x"
  by (auto simp: py_index_def)

lemma py_index_Inl_iff [simp]:
  "py_index xs i = Inl e \<longleftrightarrow> length xs \<le> i \<and> e = IndexError"
  by (auto simp: py_index_def)

lemma py_index_Cons [simp]:
  "py_index (x # xs) 0 = Inr x"
  "py_index (x # xs) (Suc i) = py_index xs i"
  by (simp_all add: py_index_def)

lemma py_index_Nil [simp]: "py_index [] i = Inl IndexError"
  by (simp add: py_index_def)

lemma py_lookup_eq [simp]:
  "m k = Some v \<Longrightarrow> py_lookup m k = Inr v"
  "m k = None \<Longrightarrow> py_lookup m k = Inl KeyError"
  by (simp_all add: py_lookup_def)

lemma py_lookup_Inr_iff [simp]: "py_lookup m k = Inr v \<longleftrightarrow> m k = Some v"
  by (auto simp: py_lookup_def split: option.splits)

lemma py_lookup_Inl_iff [simp]: "py_lookup m k = Inl e \<longleftrightarrow> m k = None \<and> e = KeyError"
  by (auto simp: py_lookup_def split: option.splits)

lemma dom_map_upd_same [simp]: "k \<in> dom m \<Longrightarrow> dom (m(k \<mapsto> v)) = dom m"
  by auto

lemma sum_case_Inr_eq [simp]:
  "(case x of Inl e \<Rightarrow> Inl e | Inr a \<Rightarrow> Inr (f a)) = Inr b \<longleftrightarrow> (\<exists>a. x = Inr a \<and> b = f a)"
  by (cases x) auto

end
