(* ===== verification/PyStr.thy ===== *)
theory PyStr
  imports Prelude
begin

text \<open>
  The Python string builtins the server relies on: \<open>str.isspace\<close>,
  \<open>str.strip()\<close> and \<open>str.split()\<close> (both without arguments), the decimal
  digits \<open>0\<close>..\<open>9\<close>, \<open>str(n)\<close> of an \<open>int\<close> and its inverse.  Every one of
  them is used by \<open>BankServer.handle_client\<close> (src/code/server.py) on each
  received line, and by the float parser of \<open>PyNum\<close>.
\<close>

section \<open>Whitespace, strip and split\<close>

text \<open>
  \<open>str.isspace\<close> on the code points below 256: the ASCII controls 9--13 and
  28--31, the space, NEL (133) and NO-BREAK SPACE (160).
\<close>

definition py_isspace :: "char \<Rightarrow> bool" where
  "py_isspace c \<longleftrightarrow> of_char c \<in> {9, 10, 11, 12, 13, 28, 29, 30, 31, 32, 133, 160 :: nat}"

text \<open>\<open>s.strip()\<close>: leading and trailing whitespace removed.\<close>

definition py_strip :: "pystr \<Rightarrow> pystr" where
  "py_strip s = rev (dropWhile py_isspace (rev (dropWhile py_isspace s)))"

text \<open>
  \<open>s.split()\<close>: the maximal runs of non-whitespace characters, in order; runs
  of whitespace separate, and leading or trailing whitespace gives no empty
  field.  \<open>cur\<close> is the current field, reversed.
\<close>

fun py_split_aux :: "pystr \<Rightarrow> pystr \<Rightarrow> pystr list" where
  "py_split_aux cur [] = (if cur = [] then [] else [rev cur])"
| "py_split_aux cur (c # cs) =
     (if py_isspace c
      then (if cur = [] then py_split_aux [] cs else rev cur # py_split_aux [] cs)
      else py_split_aux (c # cur) cs)"

definition py_split :: "pystr \<Rightarrow> pystr list" where
  "py_split s = py_split_aux [] s"

section \<open>Digits and \<open>str\<close> of an integer\<close>

definition is_digit :: "char \<Rightarrow> bool" where
  "is_digit c \<longleftrightarrow> c \<in> set ''0123456789''"

definition digit_val :: "char \<Rightarrow> nat" where
  "digit_val c = of_char c - 48"

definition digit_char :: "nat \<Rightarrow> char" where
  "digit_char d = ''0123456789'' ! d"

text \<open>The value of a string of decimal digits, most significant first.\<close>

definition digits_nat :: "pystr \<Rightarrow> nat" where
  "digits_nat ds = foldl (\<lambda>acc c. 10 * acc + digit_val c) 0 ds"

text \<open>\<open>str(n)\<close> for \<open>n \<ge> 0\<close>: the decimal digits without leading zeros.\<close>

fun nat_digits :: "nat \<Rightarrow> pystr" where
  "nat_digits n =
     (if n < 10 then [digit_char n] else nat_digits (n div 10) @ [digit_char (n mod 10)])"

declare nat_digits.simps [simp del]

definition py_str_int :: "int \<Rightarrow> pystr" where
  "py_str_int i = (if i < 0 then CHR ''-'' # nat_digits (nat (- i)) else nat_digits (nat i))"

text \<open>ASCII lower case, as the float parser matches \<open>inf\<close> and \<open>nan\<close>.\<close>

definition ascii_lower :: "char \<Rightarrow> char" where
  "ascii_lower c =
     (case map_of (zip ''ABCDEFGHIJKLMNOPQRSTUVWXYZ'' ''abcdefghijklmnopqrstuvwxyz'') c of
        Some d \<Rightarrow> d
      | None \<Rightarrow> c)"

text \<open>A word of \<open>split()\<close>: non-empty, without whitespace.\<close>

definition py_word :: "pystr \<Rightarrow> bool" where
  "py_word w \<longleftrightarrow> w \<noteq> [] \<and> list_all (\<lambda>c. \<not> py_isspace c) w"

section \<open>Lemmas\<close>

lemma py_split_aux_nonempty: "w \<in> set (py_split_aux cur s) \<Longrightarrow> w \<noteq> []"
  by (induction cur s rule: py_split_aux.induct) (auto split: if_splits)

lemma py_split_nonempty: "w \<in> set (py_split s) \<Longrightarrow> w \<noteq> []"
  unfolding py_split_def by (rule py_split_aux_nonempty)

lemma dropWhile_dropWhile: "dropWhile P (dropWhile P xs) = dropWhile P xs"
  by (induction xs) auto

lemma py_split_aux_spaces: "list_all py_isspace sp \<Longrightarrow> py_split_aux cur sp = py_split_aux cur []"
  by (induction sp arbitrary: cur) auto

lemma py_split_aux_trailing:
  "list_all py_isspace sp \<Longrightarrow> py_split_aux cur (s @ sp) = py_split_aux cur s"
  by (induction s arbitrary: cur) (auto simp: py_split_aux_spaces)

lemma py_split_aux_leading: "py_split_aux [] (dropWhile py_isspace s) = py_split_aux [] s"
  by (induction s) auto

lemma py_split_strip: "py_split (py_strip s) = py_split s"
proof -
  let ?d = "dropWhile py_isspace s"
  have "rev ?d = takeWhile py_isspace (rev ?d) @ dropWhile py_isspace (rev ?d)" by simp
  hence d: "?d = py_strip s @ rev (takeWhile py_isspace (rev ?d))"
    unfolding py_strip_def by (metis rev_append rev_rev_ident)
  have "list_all py_isspace (rev (takeWhile py_isspace (rev ?d)))"
    by (auto simp: list_all_iff dest: set_takeWhileD)
  hence "py_split_aux [] ?d = py_split_aux [] (py_strip s)"
    by (subst d) (rule py_split_aux_trailing)
  thus ?thesis by (simp add: py_split_def py_split_aux_leading)
qed

lemma py_split_aux_word:
  "list_all (\<lambda>c. \<not> py_isspace c) w \<Longrightarrow> py_split_aux cur (w @ s) = py_split_aux (rev w @ cur) s"
  by (induction w arbitrary: cur) auto

lemma py_split_word:
  "w \<noteq> [] \<Longrightarrow> list_all (\<lambda>c. \<not> py_isspace c) w \<Longrightarrow> py_isspace c \<Longrightarrow>
     py_split (w @ c # s) = w # py_split s"
  by (simp add: py_split_def py_split_aux_word)

lemma py_split_single:
  "w \<noteq> [] \<Longrightarrow> list_all (\<lambda>c. \<not> py_isspace c) w \<Longrightarrow> py_split w = [w]"
  using py_split_aux_word [of w "[]" "[]"] by (simp add: py_split_def)

lemma rev_dropWhile_rev_split:
  "xs = rev (dropWhile P (rev xs)) @ rev (takeWhile P (rev xs))"
proof -
  have "xs = rev (takeWhile P (rev xs) @ dropWhile P (rev xs))" by simp
  thus ?thesis by (simp only: rev_append)
qed

lemma hd_rev_dropWhile_rev:
  assumes "xs = [] \<or> \<not> P (hd xs)"
  shows "rev (dropWhile P (rev xs)) = [] \<or> \<not> P (hd (rev (dropWhile P (rev xs))))"
proof (cases "rev (dropWhile P (rev xs)) = []")
  case False
  have "hd xs = hd (rev (dropWhile P (rev xs)))"
    using hd_append2 [OF False, of "rev (takeWhile P (rev xs))"] rev_dropWhile_rev_split [of xs P]
    by simp
  with assms False show ?thesis by auto
qed simp

lemma py_strip_strip: "py_strip (py_strip s) = py_strip s"
proof -
  let ?d = "dropWhile py_isspace s"
  let ?x = "rev (dropWhile py_isspace (rev ?d))"
  have "?d = [] \<or> \<not> py_isspace (hd ?d)"
    using hd_dropWhile [of py_isspace s] by blast
  hence "?x = [] \<or> \<not> py_isspace (hd ?x)"
    by (rule hd_rev_dropWhile_rev)
  hence "dropWhile py_isspace ?x = ?x"
    unfolding dropWhile_eq_self_iff .
  thus ?thesis by (simp add: py_strip_def dropWhile_dropWhile)
qed

lemma py_split_spaces: "list_all py_isspace s \<Longrightarrow> py_split s = []"
  using py_split_aux_spaces [of s "[]"] by (simp add: py_split_def)

text \<open>A command word, a space and anything: the first part is the command.\<close>

lemma py_split_cmd:
  "py_word w \<Longrightarrow> py_split (py_strip (w @ CHR '' '' # s)) = w # py_split s"
  by (simp add: py_split_strip py_split_word py_word_def py_isspace_def)

lemma py_split_Nil: "py_split [] = []"
  by (simp add: py_split_def)

lemma py_strip_cmd: "py_word w \<Longrightarrow> py_strip (w @ CHR '' '' # s) \<noteq> []"
  using py_split_cmd [of w s] py_split_Nil by force

end
