(* ===== verification/PyNum.thy ===== *)
theory PyNum
  imports PyStr
begin

text \<open>
  Python numbers as the server meets them.  A balance is whatever
  \<open>json.load\<close> produced (an \<open>int\<close> or a \<open>float\<close>); an amount is the result of
  \<open>float(parts[1])\<close>.  A \<open>float\<close> is finite, \<open>inf\<close>, \<open>-inf\<close> or \<open>nan\<close>; a
  finite float is modelled by the exact rational it denotes (no rounding to
  53 bits, no signed zero), so that the arithmetic of the withdrawal is exact.
  The operations are \<open>float(s)\<close> (\<open>py_float\<close>), \<open>>=\<close> between a balance and
  an amount (\<open>py_ge\<close>), \<open>balance -= amount\<close> (\<open>py_sub\<close>) and \<open>str\<close>/\<open>repr\<close>
  (\<open>py_str_num\<close>), which builds the \<open>AMNT:\<close> reply.
\<close>

section \<open>Values\<close>

datatype pyfloat = Fin rat | PInf | NInf | NaN

datatype pynum = PyInt int | PyFloat pyfloat

fun to_float :: "pynum \<Rightarrow> pyfloat" where
  "to_float (PyInt i) = Fin (of_int i)"
| "to_float (PyFloat x) = x"

section \<open>Comparison and subtraction\<close>

text \<open>\<open>x >= y\<close> on floats: false as soon as one side is \<open>nan\<close>.\<close>

fun float_ge :: "pyfloat \<Rightarrow> pyfloat \<Rightarrow> bool" where
  "float_ge NaN _ = False"
| "float_ge _ NaN = False"
| "float_ge PInf _ = True"
| "float_ge NInf y = (y = NInf)"
| "float_ge (Fin a) PInf = False"
| "float_ge (Fin a) NInf = True"
| "float_ge (Fin a) (Fin b) = (b \<le> a)"

text \<open>\<open>x < y\<close>: also false on \<open>nan\<close>.\<close>

definition float_lt :: "pyfloat \<Rightarrow> pyfloat \<Rightarrow> bool" where
  "float_lt x y \<longleftrightarrow> x \<noteq> NaN \<and> y \<noteq> NaN \<and> \<not> float_ge x y"

text \<open>IEEE subtraction on the extended values: \<open>inf - inf\<close> is \<open>nan\<close>.\<close>

fun float_sub :: "pyfloat \<Rightarrow> pyfloat \<Rightarrow> pyfloat" where
  "float_sub NaN _ = NaN"
| "float_sub _ NaN = NaN"
| "float_sub PInf PInf = NaN"
| "float_sub NInf NInf = NaN"
| "float_sub PInf _ = PInf"
| "float_sub NInf _ = NInf"
| "float_sub (Fin a) PInf = NInf"
| "float_sub (Fin a) NInf = PInf"
| "float_sub (Fin a) (Fin b) = Fin (a - b)"

text \<open>
  \<open>balance >= amount\<close> (an \<open>int\<close> is compared exactly with a float) and
  \<open>balance -= amount\<close> (an \<open>int\<close> minus a \<open>float\<close> is a \<open>float\<close>).
\<close>

definition py_ge :: "pynum \<Rightarrow> pyfloat \<Rightarrow> bool" where
  "py_ge b a = float_ge (to_float b) a"

definition py_sub :: "pynum \<Rightarrow> pyfloat \<Rightarrow> pynum" where
  "py_sub b a = PyFloat (float_sub (to_float b) a)"

text \<open>A balance is negative when \<open>balance < 0\<close> holds in Python.\<close>

definition py_negative :: "pynum \<Rightarrow> bool" where
  "py_negative b \<longleftrightarrow> float_lt (to_float b) (Fin 0)"

section \<open>\<open>float(s)\<close>\<close>

text \<open>
  The grammar CPython accepts (after \<open>strip\<close>): an optional sign, then
  \<open>inf\<close>, \<open>infinity\<close> or \<open>nan\<close> in any case, or a decimal
  \<open>digitpart [. [digitpart]] [e [sign] digitpart]\<close> or
  \<open>. digitpart [e ...]\<close>, where a digitpart is digits with single
  underscores between two digits.  Anything else raises \<open>ValueError\<close>.
\<close>

fun digitrun :: "pystr \<Rightarrow> pystr \<times> pystr" where
  "digitrun [] = ([], [])"
| "digitrun (c # cs) =
     (if is_digit c then apfst (Cons c) (digitrun cs)
      else if c = CHR ''_'' \<and> cs \<noteq> [] \<and> is_digit (hd cs)
      then apfst (Cons (hd cs)) (digitrun (tl cs))
      else ([], c # cs))"

definition digitpart :: "pystr \<Rightarrow> (pystr \<times> pystr) option" where
  "digitpart s =
     (case s of
        [] \<Rightarrow> None
      | c # cs \<Rightarrow> if is_digit c then Some (apfst (Cons c) (digitrun cs)) else None)"

definition py_sign :: "pystr \<Rightarrow> bool \<times> pystr" where
  "py_sign s =
     (case s of
        [] \<Rightarrow> (False, [])
      | c # cs \<Rightarrow>
          if c = CHR ''-'' then (True, cs) else if c = CHR ''+'' then (False, cs) else (False, s))"

definition parse_exp :: "pystr \<Rightarrow> int option" where
  "parse_exp s =
     (case py_sign s of
        (neg, r) \<Rightarrow>
          (case digitpart r of
             Some (ds, []) \<Rightarrow> Some (if neg then - int (digits_nat ds) else int (digits_nat ds))
           | _ \<Rightarrow> None))"

definition scale10 :: "rat \<Rightarrow> int \<Rightarrow> rat" where
  "scale10 q e = (if 0 \<le> e then q * 10 ^ nat e else q / 10 ^ nat (- e))"

text \<open>The value of \<open>ip.fp e exp\<close>.\<close>

definition dec_value :: "pystr \<Rightarrow> pystr \<Rightarrow> int \<Rightarrow> rat" where
  "dec_value ip fp e = scale10 (of_nat (digits_nat (ip @ fp)) / 10 ^ length fp) e"

definition parse_tail :: "pystr \<Rightarrow> pystr \<Rightarrow> pystr \<Rightarrow> rat option" where
  "parse_tail ip fp r =
     (case r of
        [] \<Rightarrow> Some (dec_value ip fp 0)
      | c # cs \<Rightarrow>
          if c = CHR ''e'' \<or> c = CHR ''E'' then map_option (dec_value ip fp) (parse_exp cs)
          else None)"

definition parse_unsigned :: "pystr \<Rightarrow> rat option" where
  "parse_unsigned s =
     (case digitpart s of
        Some (ip, r) \<Rightarrow>
          (case r of
             c # r' \<Rightarrow>
               if c = CHR ''.'' then
                 (case digitpart r' of
                    Some (fp, r'') \<Rightarrow> parse_tail ip fp r''
                  | None \<Rightarrow> parse_tail ip [] r')
               else parse_tail ip [] r
           | [] \<Rightarrow> parse_tail ip [] [])
      | None \<Rightarrow>
          (case s of
             c # r' \<Rightarrow>
               if c = CHR ''.'' then
                 (case digitpart r' of
                    Some (fp, r'') \<Rightarrow> parse_tail [] fp r''
                  | None \<Rightarrow> None)
               else None
           | [] \<Rightarrow> None))"

definition py_float :: "pystr \<Rightarrow> pyfloat py_result" where
  "py_float s0 =
     (case py_sign (py_strip s0) of
        (neg, r) \<Rightarrow>
          (let lr = map ascii_lower r in
           if lr = ''inf'' \<or> lr = ''infinity'' then Inr (if neg then NInf else PInf)
           else if lr = ''nan'' then Inr NaN
           else
             (case parse_unsigned r of
                Some q \<Rightarrow> Inr (Fin (if neg then - q else q))
              | None \<Rightarrow> Inl ValueError)))"

text \<open>The characters a numeral accepted by \<open>float()\<close> can contain.\<close>

definition numchar :: "char \<Rightarrow> bool" where
  "numchar c \<longleftrightarrow> c \<in> set ''0123456789_.eE+-''"

section \<open>\<open>repr\<close> of a float and \<open>str\<close> of a number\<close>

text \<open>
  The multiplicity of a prime factor, used to find the number of decimal
  places of a rational whose denominator is \<open>2 ^ a * 5 ^ b\<close>.
\<close>

function mult_of :: "nat \<Rightarrow> nat \<Rightarrow> nat" where
  "mult_of p n = (if p \<le> 1 \<or> n = 0 \<or> \<not> p dvd n then 0 else Suc (mult_of p (n div p)))"
  by pat_completeness auto
termination
  by (relation "measure (\<lambda>(p, n). n)") auto

declare mult_of.simps [simp del]

definition dec_places :: "rat \<Rightarrow> nat" where
  "dec_places q = (case quotient_of q of (n, d) \<Rightarrow> max (mult_of 2 (nat d)) (mult_of 5 (nat d)))"

text \<open>A rational with a finite decimal expansion: all a float read from text can be.\<close>

definition is_decimal :: "rat \<Rightarrow> bool" where
  "is_decimal q \<longleftrightarrow> snd (quotient_of q) dvd 10 ^ dec_places q"

text \<open>
  The shortest digit string \<open>D\<close> (no trailing zero) and the position
  \<open>decpt\<close> of the decimal point, so that \<open>q = 0.D * 10 ^ decpt\<close>, for
  \<open>q > 0\<close> decimal.
\<close>

definition digits_decpt :: "rat \<Rightarrow> pystr \<times> int" where
  "digits_decpt q =
     (let k = dec_places q;
          m = nat (\<lfloor>q * 10 ^ k\<rfloor>);
          D = nat_digits m;
          D' = rev (dropWhile (\<lambda>c. c = CHR ''0'') (rev D))
      in (D', int (length D) - int k))"

definition pad2 :: "pystr \<Rightarrow> pystr" where
  "pad2 s = (if length s < 2 then CHR ''0'' # s else s)"

text \<open>
  CPython's \<open>format_float_short\<close> for \<open>repr\<close>: exponent notation when
  \<open>decpt \<le> -4\<close> or \<open>decpt > 16\<close>, otherwise fixed notation with at least one
  digit after the point.
\<close>

definition repr_digits :: "pystr \<Rightarrow> int \<Rightarrow> pystr" where
  "repr_digits D decpt =
     (let n = int (length D) in
      if decpt \<le> -4 \<or> 16 < decpt then
        [hd D] @ (if 1 < length D then CHR ''.'' # tl D else []) @
        CHR ''e'' # (if decpt - 1 < 0 then CHR ''-'' else CHR ''+'') #
        pad2 (nat_digits (nat \<bar>decpt - 1\<bar>))
      else if decpt \<le> 0 then ''0.'' @ replicate (nat (- decpt)) CHR ''0'' @ D
      else if decpt < n then take (nat decpt) D @ CHR ''.'' # drop (nat decpt) D
      else D @ replicate (nat (decpt - n)) CHR ''0'' @ ''.0'')"

fun py_repr_float :: "pyfloat \<Rightarrow> pystr" where
  "py_repr_float PInf = ''inf''"
| "py_repr_float NInf = ''-inf''"
| "py_repr_float NaN = ''nan''"
| "py_repr_float (Fin q) =
     (if q = 0 then ''0.0''
      else (if q < 0 then ''-'' else []) @ (case digits_decpt \<bar>q\<bar> of (D, e) \<Rightarrow> repr_digits D e))"

text \<open>\<open>str(x)\<close> and \<open>f"{x}"\<close> of a number.\<close>

fun py_str_num :: "pynum \<Rightarrow> pystr" where
  "py_str_num (PyInt i) = py_str_int i"
| "py_str_num (PyFloat x) = py_repr_float x"

section \<open>Lemmas\<close>

text \<open>The equations that evaluate \<open>float(s)\<close> on a literal by \<open>simp\<close>.\<close>

lemmas py_float_eval = py_float_def py_sign_def py_strip_def py_isspace_def parse_unsigned_def
  digitpart_def is_digit_def parse_tail_def dec_value_def scale10_def digits_nat_def digit_val_def
  ascii_lower_def parse_exp_def

lemma py_float_error: "py_float s = Inl e \<Longrightarrow> e = ValueError"
  by (auto simp: py_float_def Let_def split: prod.splits if_splits option.splits)

text \<open>
  A subtraction guarded by \<open>>=\<close> never yields a negative number, whatever
  the operands (a \<open>nan\<close> result is not negative either).
\<close>

lemma float_ge_sub_not_negative:
  "float_ge x y \<Longrightarrow> \<not> float_lt (float_sub x y) (Fin 0)"
  by (induction x y rule: float_sub.induct) (auto simp: float_lt_def)

lemma py_ge_sub_not_negative:
  "py_ge b x \<Longrightarrow> \<not> py_negative (py_sub b x)"
  by (simp add: py_ge_def py_sub_def py_negative_def float_ge_sub_not_negative)

text \<open>A string \<open>float()\<close> accepts strips to one non-empty word.\<close>

lemma numchar_not_space: "numchar c \<Longrightarrow> \<not> py_isspace c"
  by (auto simp: numchar_def py_isspace_def)

lemma digit_numchar: "is_digit c \<Longrightarrow> numchar c"
  by (auto simp: is_digit_def numchar_def)

lemma numchar_simps [simp]:
  "numchar CHR ''_''" "numchar CHR ''.''" "numchar CHR ''e''" "numchar CHR ''E''"
  "numchar CHR ''+''" "numchar CHR ''-''"
  by (simp_all add: numchar_def)

lemma digitrun_numchar:
  "list_all numchar (snd (digitrun s)) \<Longrightarrow> list_all numchar s"
  by (induction s rule: digitrun.induct)
     (auto simp: digit_numchar neq_Nil_conv split: if_splits)

lemma digitpart_numchar:
  "digitpart s = Some (ds, r) \<Longrightarrow> list_all numchar r \<Longrightarrow> list_all numchar s"
  by (auto simp: digitpart_def digit_numchar apfst_def map_prod_def
           split: list.splits if_splits prod.splits intro: digitrun_numchar)

lemma py_sign_list_all:
  "py_sign s = (neg, r) \<Longrightarrow> P (CHR ''-'') \<Longrightarrow> P (CHR ''+'') \<Longrightarrow> list_all P r \<Longrightarrow> list_all P s"
  by (auto simp: py_sign_def split: list.splits if_splits)

lemma py_sign_nonempty: "py_sign s = (neg, r) \<Longrightarrow> r \<noteq> [] \<Longrightarrow> s \<noteq> []"
  by (auto simp: py_sign_def)

lemma parse_exp_numchar: "parse_exp s = Some e \<Longrightarrow> list_all numchar s"
  by (auto simp: parse_exp_def elim!: py_sign_list_all digitpart_numchar
           split: prod.splits option.splits list.splits)

lemma parse_tail_numchar: "parse_tail ip fp r = Some q \<Longrightarrow> list_all numchar r"
  by (auto simp: parse_tail_def dest: parse_exp_numchar split: list.splits if_splits)

lemma parse_unsigned_Nil: "parse_unsigned [] = None"
  by (simp add: parse_unsigned_def digitpart_def)

lemma fraction_numchar:
  assumes "(case digitpart r' of Some (fp, r'') \<Rightarrow> parse_tail ip fp r'' | None \<Rightarrow> d) = Some q"
    and "digitpart r' = None \<Longrightarrow> d = Some q \<Longrightarrow> list_all numchar r'"
  shows "list_all numchar r'"
  using assms by (auto split: option.splits dest: parse_tail_numchar intro: digitpart_numchar)

lemma parse_unsigned_numchar: "parse_unsigned s = Some q \<Longrightarrow> s \<noteq> [] \<and> list_all numchar s"
proof (cases "digitpart s")
  case None
  moreover assume "parse_unsigned s = Some q"
  ultimately show ?thesis
    by (auto simp: parse_unsigned_def split: list.splits if_splits elim: fraction_numchar)
next
  case (Some a)
  then obtain ip r where d: "digitpart s = Some (ip, r)" by (cases a) auto
  assume p: "parse_unsigned s = Some q"
  have "list_all numchar r"
  proof (cases r)
    case Nil
    then show ?thesis by simp
  next
    case (Cons c r')
    with p d show ?thesis
      by (auto simp: parse_unsigned_def split: if_splits dest: parse_tail_numchar
               elim: fraction_numchar)
  qed
  with d p show ?thesis by (auto simp: parse_unsigned_Nil intro: digitpart_numchar)
qed

lemma ascii_lower_space: "py_isspace c \<Longrightarrow> ascii_lower c = c"
proof -
  assume "py_isspace c"
  hence "c \<notin> set ''ABCDEFGHIJKLMNOPQRSTUVWXYZ''" by (auto simp: py_isspace_def)
  thus ?thesis by (simp add: ascii_lower_def map_of_zip_is_None)
qed

lemma lower_word_no_space:
  "list_all (\<lambda>c. \<not> py_isspace c) (map ascii_lower r) \<Longrightarrow> list_all (\<lambda>c. \<not> py_isspace c) r"
  by (induction r) (auto simp: ascii_lower_space)

lemma py_float_word:
  assumes "py_float a = Inr x"
  shows "py_word (py_strip a)"
proof -
  obtain neg r where sg: "py_sign (py_strip a) = (neg, r)" by (cases "py_sign (py_strip a)") auto
  have "r \<noteq> [] \<and> list_all (\<lambda>c. \<not> py_isspace c) r"
  proof (cases "map ascii_lower r \<in> {''inf'', ''infinity'', ''nan''}")
    case True
    hence "list_all (\<lambda>c. \<not> py_isspace c) (map ascii_lower r)" and "map ascii_lower r \<noteq> []"
      by (auto simp: py_isspace_def)
    thus ?thesis by (auto intro: lower_word_no_space)
  next
    case False
    with assms sg obtain q where "parse_unsigned r = Some q"
      by (auto simp: py_float_def Let_def split: option.splits)
    thus ?thesis
      by (auto dest!: parse_unsigned_numchar simp: list_all_iff numchar_not_space)
  qed
  with sg show ?thesis unfolding py_word_def
    by (auto simp: py_isspace_def dest: py_sign_nonempty elim: py_sign_list_all)
qed


lemma py_float_strip: "py_float (py_strip s) = py_float s"
  by (simp add: py_float_def py_strip_strip)

end
