(* ===== verification/Client.thy ===== *)
theory Client
  imports PyNum
begin

text \<open>
  \<open>ModernATMClient\<close> (src/code/client.py): the commands it sends, how it reads
  the replies, what its status bar and dialogs show, and what Tk does with
  its calls.  A method of the class is a computation of the callback monad
  \<open>cb\<close>: it threads the window's state (\<open>client\<close>) and the state of the
  other side of the socket, may block for ever in \<open>recv\<close> (\<open>None\<close>), and ends
  normally or with an exception (\<open>Raise\<close>) that aborts the rest of the method,
  as in Python.  Tk is modelled by what the code relies on: a call on a
  widget of a destroyed window raises \<open>TclError\<close>, an exception that escapes
  a button's callback is printed (\<open>report_callback_exception\<close>) and the main
  loop goes on, and the loop ends once the window is destroyed.  The layout
  of the widgets is abstracted to the screen shown and whether the withdraw
  panel is placed.  The connection is an interface: a \<open>transport\<close> takes
  the text of one command and the state of the other side and returns what
  \<open>self.sock.recv(1024)\<close> yields, or that the call blocks or raises.  The
  lemmas of this theory hold for every transport; \<open>Protocol\<close> instantiates
  it with the server's handler.
\<close>

section \<open>State and interface\<close>

datatype screen = LoginScreen | MainScreen

text \<open>The tags of the status bar (\<open>setup_status_bar\<close>, lines 70--73).\<close>

datatype tag = TagSend | TagRecv | TagError | TagSys

text \<open>
  The messages of \<open>update_status\<close>, one constructor per call site, with the
  data they show; the timestamp and the wording are not modelled.
\<close>

datatype status_msg =
    Connecting | Connected | ConnectFailed
  | LoginShown | LoggedIn "pystr option" | WithdrawShown
  | TryLogin pystr | BadPassword | BadUser
  | QueryBalance | BalanceOk | BalanceFailed
  | TryWithdraw pystr | WithdrawDone | WithdrawRejected | BadAmount
  | LoggingOut | Sent pystr | Received pystr | CommError | Closing

text \<open>Exceptions a method can raise.\<close>

datatype exc = TclError | PyExc py_error

text \<open>
  What the user is shown: the dialogs of \<open>show_info\<close>, \<open>show_error\<close> and
  \<open>messagebox.showerror\<close>, and the traceback printed for an exception that
  escapes a callback or the constructor.
\<close>

datatype dialog =
    ErrNoServer
  | ErrConnection
  | ErrBadUser
  | ErrBadPassword
  | InfoBalance pyfloat
  | InfoWithdrawn pyfloat
  | ErrWithdraw
  | ErrBadAmount
  | Traceback exc

text \<open>
  The window: \<open>self.current_user\<close>, the screen built in \<open>main_container\<close>,
  whether the withdraw panel is placed in it, whether \<open>self.root\<close> is still
  alive, and the lines of \<open>self.status_text\<close>.
\<close>

record client =
  cur_user :: "pystr option"
  screen :: screen
  panel :: bool
  alive :: bool
  status_text :: "(status_msg \<times> tag) list"

datatype reply = Reply pystr | Hangs | Fails

type_synonym 'c transport = "pystr \<Rightarrow> 'c \<Rightarrow> reply \<times> 'c"

section \<open>The callback monad\<close>

datatype 'a outcome = Ret 'a | Raise exc

type_synonym ('c, 'a) cb = "client \<Rightarrow> 'c \<Rightarrow> ('a outcome \<times> dialog list \<times> client \<times> 'c) option"

text \<open>
  What a button's callback ends with: the dialogs shown and the new states,
  or \<open>None\<close> when it blocks in \<open>recv\<close> for ever (the window freezes).
\<close>

type_synonym 'c cresult = "(dialog list \<times> client \<times> 'c) option"

definition cb_return :: "'a \<Rightarrow> ('c, 'a) cb" where
  "cb_return x cl c = Some (Ret x, [], cl, c)"

definition cb_raise :: "exc \<Rightarrow> ('c, 'a) cb" where
  "cb_raise e cl c = Some (Raise e, [], cl, c)"

definition cb_then :: "dialog list \<Rightarrow> ('a outcome \<times> dialog list \<times> client \<times> 'c) option \<Rightarrow>
    ('a outcome \<times> dialog list \<times> client \<times> 'c) option" where
  "cb_then ds r = (case r of None \<Rightarrow> None | Some (y, ds2, s) \<Rightarrow> Some (y, ds @ ds2, s))"

definition cb_bind :: "('c, 'a) cb \<Rightarrow> ('a \<Rightarrow> ('c, 'b) cb) \<Rightarrow> ('c, 'b) cb" where
  "cb_bind m f cl c =
     (case m cl c of
        None \<Rightarrow> None
      | Some (Ret x, ds, cl1, c1) \<Rightarrow> cb_then ds (f x cl1 c1)
      | Some (Raise e, ds, cl1, c1) \<Rightarrow> Some (Raise e, ds, cl1, c1))"

text \<open>\<open>try: m except E: h\<close>, the exceptions \<open>E\<close> catches given by \<open>P\<close>.\<close>

definition cb_catch :: "('c, 'a) cb \<Rightarrow> (exc \<Rightarrow> bool) \<Rightarrow> ('c, 'a) cb \<Rightarrow> ('c, 'a) cb" where
  "cb_catch m P h cl c =
     (case m cl c of
        None \<Rightarrow> None
      | Some (Ret x, ds, cl1, c1) \<Rightarrow> Some (Ret x, ds, cl1, c1)
      | Some (Raise e, ds, cl1, c1) \<Rightarrow>
          if P e then cb_then ds (h cl1 c1) else Some (Raise e, ds, cl1, c1))"

section \<open>Tk, the socket and \<open>float()\<close>\<close>

text \<open>A call on a widget: once \<open>self.root\<close> is destroyed it raises \<open>TclError\<close>.\<close>

definition widget :: "(client \<Rightarrow> dialog list \<times> client) \<Rightarrow> ('c, unit) cb" where
  "widget f cl c =
     (if alive cl then (case f cl of (ds, cl') \<Rightarrow> Some (Ret (), ds, cl', c))
      else Some (Raise TclError, [], cl, c))"

text \<open>\<open>self.root.destroy()\<close>.\<close>

definition destroy :: "('c, unit) cb" where
  "destroy cl c = Some (Ret (), [], cl\<lparr>alive := False\<rparr>, c)"

definition set_user :: "pystr option \<Rightarrow> ('c, unit) cb" where
  "set_user u cl c = Some (Ret (), [], cl\<lparr>cur_user := u\<rparr>, c)"

definition get_user :: "('c, pystr option) cb" where
  "get_user cl c = Some (Ret (cur_user cl), [], cl, c)"

text \<open>\<open>self.sock.sendall(cmd.encode())\<close> and \<open>self.sock.recv(1024).decode()\<close>.\<close>

definition sock_exchange :: "'c transport \<Rightarrow> pystr \<Rightarrow> ('c, pystr) cb" where
  "sock_exchange exch cmd cl c =
     (case exch cmd c of
        (Reply r, c') \<Rightarrow> Some (Ret r, [], cl, c')
      | (Hangs, c') \<Rightarrow> None
      | (Fails, c') \<Rightarrow> Some (Raise (PyExc OSError), [], cl, c'))"

definition sock_close :: "('c \<Rightarrow> 'c) \<Rightarrow> ('c, unit) cb" where
  "sock_close close cl c = Some (Ret (), [], cl, close c)"

definition float_cb :: "pystr \<Rightarrow> ('c, pyfloat) cb" where
  "float_cb s = (case py_float s of Inr x \<Rightarrow> cb_return x | Inl e \<Rightarrow> cb_raise (PyExc e))"

section \<open>Methods of \<open>ModernATMClient\<close>\<close>

text \<open>\<open>update_status\<close> (lines 75--81).\<close>

definition update_status :: "status_msg \<Rightarrow> tag \<Rightarrow> ('c, unit) cb" where
  "update_status msg tg = widget (\<lambda>cl. ([], cl\<lparr>status_text := status_text cl @ [(msg, tg)]\<rparr>))"

text \<open>\<open>setup_status_bar\<close> (lines 52--73): an empty status text with its four tags.\<close>

definition setup_status_bar :: "('c, unit) cb" where
  "setup_status_bar = widget (\<lambda>cl. ([], cl\<lparr>status_text := []\<rparr>))"

text \<open>\<open>show_info\<close> and \<open>show_error\<close> (lines 262--268).\<close>

definition show_info :: "dialog \<Rightarrow> ('c, unit) cb" where
  "show_info d = widget (\<lambda>cl. ([d], cl))"

definition show_error :: "dialog \<Rightarrow> ('c, unit) cb" where
  "show_error d = widget (\<lambda>cl. ([d], cl))"

text \<open>
  \<open>connect_server\<close> (lines 83--93); \<open>reachable\<close> says whether
  \<open>connect\<close> succeeds.  Any exception shows the error and destroys the window.
\<close>

definition connect_server :: "bool \<Rightarrow> ('c, unit) cb" where
  "connect_server reachable =
     cb_catch
       (cb_bind (update_status Connecting TagSys) (\<lambda>_.
        cb_bind (if reachable then cb_return () else cb_raise (PyExc OSError)) (\<lambda>_.
        update_status Connected TagSys)))
       (\<lambda>_. True)
       (cb_bind (update_status ConnectFailed TagError) (\<lambda>_.
        cb_bind (show_error ErrNoServer) (\<lambda>_.
        destroy)))"

text \<open>\<open>clear_main_container\<close> (lines 95--98) destroys the screen and the panel.\<close>

definition clear_main_container :: "('c, unit) cb" where
  "clear_main_container = widget (\<lambda>cl. ([], cl\<lparr>panel := False\<rparr>))"

text \<open>\<open>show_login_ui\<close> (lines 100--139): entries and the two buttons.\<close>

definition show_login_ui :: "('c, unit) cb" where
  "show_login_ui =
     cb_bind clear_main_container (\<lambda>_.
     cb_bind (update_status LoginShown TagSys) (\<lambda>_.
     widget (\<lambda>cl. ([], cl\<lparr>screen := LoginScreen\<rparr>))))"

text \<open>\<open>show_main_ui\<close> (lines 141--177): the logout, balance and withdraw buttons.\<close>

definition show_main_ui :: "('c, unit) cb" where
  "show_main_ui =
     cb_bind clear_main_container (\<lambda>_.
     cb_bind get_user (\<lambda>u.
     cb_bind (update_status (LoggedIn u) TagSys) (\<lambda>_.
     widget (\<lambda>cl. ([], cl\<lparr>screen := MainScreen\<rparr>)))))"

text \<open>\<open>show_withdraw_panel\<close> (lines 179--192): the amount entry and its button.\<close>

definition show_withdraw_panel :: "('c, unit) cb" where
  "show_withdraw_panel =
     cb_bind (update_status WithdrawShown TagSys) (\<lambda>_.
     widget (\<lambda>cl. ([], cl\<lparr>panel := True\<rparr>)))"

text \<open>
  \<open>send_command\<close> (lines 248--260): any exception of \<open>sendall\<close>, \<open>recv\<close> or
  the status bar shows the connection error, destroys the window and
  returns \<open>""\<close>.
\<close>

definition send_command :: "'c transport \<Rightarrow> pystr \<Rightarrow> ('c, pystr) cb" where
  "send_command exch cmd =
     cb_catch
       (cb_bind (sock_exchange exch cmd) (\<lambda>response.
        cb_bind (update_status (Sent cmd) TagSend) (\<lambda>_.
        cb_bind (update_status (Received response) TagRecv) (\<lambda>_.
        cb_return response))))
       (\<lambda>_. True)
       (cb_bind (update_status CommError TagError) (\<lambda>_.
        cb_bind (show_error ErrConnection) (\<lambda>_.
        cb_bind destroy (\<lambda>_.
        cb_return []))))"

text \<open>\<open>needle in hay\<close> for strings.\<close>

fun py_contains :: "pystr \<Rightarrow> pystr \<Rightarrow> bool" where
  "py_contains needle [] = (needle = [])"
| "py_contains needle (c # cs) = (take (length needle) (c # cs) = needle \<or> py_contains needle cs)"

text \<open>\<open>s.split(sep)\<close> with a one-character separator.\<close>

fun py_split_sep :: "char \<Rightarrow> pystr \<Rightarrow> pystr list" where
  "py_split_sep d [] = [[]]"
| "py_split_sep d (c # cs) =
     (if c = d then [] # py_split_sep d cs
      else (case py_split_sep d cs of w # ws \<Rightarrow> (c # w) # ws | [] \<Rightarrow> [[c]]))"

text \<open>
  \<open>login\<close> (lines 194--211): \<open>PASS\<close> is sent only after a reply containing
  \<open>500 AUTH REQUIRE\<close>; the client counts as logged in when the second reply
  contains \<open>525 OK!\<close>.
\<close>

definition login :: "'c transport \<Rightarrow> pystr \<Rightarrow> pystr \<Rightarrow> ('c, unit) cb" where
  "login exch username pw =
     cb_bind (update_status (TryLogin username) TagSys) (\<lambda>_.
     cb_bind (send_command exch (''HELO '' @ username)) (\<lambda>response.
     if py_contains ''500 AUTH REQUIRE'' response then
       cb_bind (send_command exch (''PASS '' @ pw)) (\<lambda>auth_res.
       if py_contains ''525 OK!'' auth_res then
         cb_bind (set_user (Some username)) (\<lambda>_. show_main_ui)
       else
         cb_bind (update_status BadPassword TagError) (\<lambda>_. show_error ErrBadPassword))
     else
       cb_bind (update_status BadUser TagError) (\<lambda>_. show_error ErrBadUser)))"

text \<open>
  \<open>check_balance\<close> (lines 213--222): the text after the first \<open>:\<close> is read
  by \<open>float()\<close>; a \<open>ValueError\<close> there escapes the callback.
\<close>

definition check_balance :: "'c transport \<Rightarrow> ('c, unit) cb" where
  "check_balance exch =
     cb_bind (update_status QueryBalance TagSys) (\<lambda>_.
     cb_bind (send_command exch ''BALA'') (\<lambda>response.
     if take 5 response = ''AMNT:'' then
       cb_bind (float_cb (py_split_sep CHR '':'' response ! 1)) (\<lambda>x.
       cb_bind (show_info (InfoBalance x)) (\<lambda>_.
       update_status BalanceOk TagRecv))
     else update_status BalanceFailed TagError))"

text \<open>
  \<open>withdraw\<close> (lines 224--239): the entry is checked with \<open>float()\<close> before
  anything is sent, and sent as typed; only a \<open>ValueError\<close> is caught.
\<close>

definition withdraw :: "'c transport \<Rightarrow> pystr \<Rightarrow> ('c, unit) cb" where
  "withdraw exch amount =
     cb_catch
       (cb_bind (float_cb amount) (\<lambda>_.
        cb_bind (update_status (TryWithdraw amount) TagSend) (\<lambda>_.
        cb_bind (send_command exch (''WDRA '' @ amount)) (\<lambda>response.
        if py_contains ''525 OK!'' response then
          cb_bind (float_cb amount) (\<lambda>x.
          cb_bind (show_info (InfoWithdrawn x)) (\<lambda>_.
          update_status WithdrawDone TagRecv))
        else
          cb_bind (update_status WithdrawRejected TagError) (\<lambda>_.
          show_error ErrWithdraw)))))
       (\<lambda>e. e = PyExc ValueError)
       (cb_bind (update_status BadAmount TagError) (\<lambda>_.
        show_error ErrBadAmount))"

text \<open>\<open>logout\<close> (lines 241--246): the reply to \<open>BYE\<close> is ignored; the socket is kept.\<close>

definition logout :: "'c transport \<Rightarrow> ('c, unit) cb" where
  "logout exch =
     cb_bind (update_status LoggingOut TagSys) (\<lambda>_.
     cb_bind (send_command exch ''BYE'') (\<lambda>_.
     cb_bind (set_user None) (\<lambda>_.
     show_login_ui)))"

text \<open>\<open>on_closing\<close> (lines 270--275): the socket is closed and the window destroyed.\<close>

definition on_closing :: "('c \<Rightarrow> 'c) \<Rightarrow> ('c, unit) cb" where
  "on_closing close =
     cb_bind (update_status Closing TagSys) (\<lambda>_.
     cb_bind (sock_close close) (\<lambda>_.
     destroy))"

text \<open>
  The constructor (lines 11--27), run on a fresh window: \<open>current_user\<close>
  is \<open>None\<close>, then \<open>setup_status_bar\<close>, \<open>connect_server\<close> and
  \<open>show_login_ui\<close>.
\<close>

definition blank_client :: client where
  "blank_client = \<lparr>cur_user = None, screen = LoginScreen, panel = False, alive = True, status_text = []\<rparr>"

definition client_init :: "bool \<Rightarrow> ('c, unit) cb" where
  "client_init reachable =
     cb_bind (set_user None) (\<lambda>_.
     cb_bind setup_status_bar (\<lambda>_.
     cb_bind (connect_server reachable) (\<lambda>_.
     show_login_ui)))"

text \<open>The window the constructor leaves when the server accepts the connection.\<close>

definition init_client :: client where
  "init_client = \<lparr>cur_user = None, screen = LoginScreen, panel = False, alive = True,
     status_text = [(Connecting, TagSys), (Connected, TagSys), (LoginShown, TagSys)]\<rparr>"

section \<open>Buttons and the main loop\<close>

text \<open>
  The buttons of the two screens (\<open>show_login_ui\<close>, \<open>show_main_ui\<close>) and of
  the withdraw panel (\<open>show_withdraw_panel\<close>); the entries' text is part of
  the click.  A click on a button that is not shown does nothing.
\<close>

datatype action = Login pystr pystr | Exit | CheckBalance | OpenWithdraw | Withdraw pystr | Logout

fun enabled :: "action \<Rightarrow> client \<Rightarrow> bool" where
  "enabled (Login _ _) cl = (screen cl = LoginScreen)"
| "enabled Exit cl = (screen cl = LoginScreen)"
| "enabled (Withdraw _) cl = (screen cl = MainScreen \<and> panel cl)"
| "enabled _ cl = (screen cl = MainScreen)"

fun run_action :: "'c transport \<Rightarrow> ('c \<Rightarrow> 'c) \<Rightarrow> action \<Rightarrow> ('c, unit) cb" where
  "run_action exch close (Login u p) = login exch u p"
| "run_action exch close Exit = on_closing close"
| "run_action exch close CheckBalance = check_balance exch"
| "run_action exch close OpenWithdraw = show_withdraw_panel"
| "run_action exch close (Withdraw a) = withdraw exch a"
| "run_action exch close Logout = logout exch"

text \<open>Tk runs a callback; an exception that escapes it is printed.\<close>

definition callback :: "('c, unit) cb \<Rightarrow> client \<Rightarrow> 'c \<Rightarrow> 'c cresult" where
  "callback m cl c =
     (case m cl c of
        None \<Rightarrow> None
      | Some (Ret _, ds, cl', c') \<Rightarrow> Some (ds, cl', c')
      | Some (Raise e, ds, cl', c') \<Rightarrow> Some (ds @ [Traceback e], cl', c'))"

text \<open>\<open>root.mainloop()\<close> over a run of clicks; it returns once the window is destroyed.\<close>

fun run_actions :: "'c transport \<Rightarrow> ('c \<Rightarrow> 'c) \<Rightarrow> action list \<Rightarrow> client \<Rightarrow> 'c \<Rightarrow> 'c cresult" where
  "run_actions exch close [] cl c = Some ([], cl, c)"
| "run_actions exch close (a # as) cl c =
     (if \<not> alive cl then Some ([], cl, c)
      else if \<not> enabled a cl then run_actions exch close as cl c
      else
        (case callback (run_action exch close a) cl c of
           None \<Rightarrow> None
         | Some (ds, cl1, c1) \<Rightarrow>
             (case run_actions exch close as cl1 c1 of
                None \<Rightarrow> None
              | Some (ds2, cl2, c2) \<Rightarrow> Some (ds @ ds2, cl2, c2))))"

text \<open>
  The script (lines 278--290): the constructor, then the main loop.  An
  exception of the constructor ends the program before the loop.
\<close>

definition client_main :: "'c transport \<Rightarrow> ('c \<Rightarrow> 'c) \<Rightarrow> bool \<Rightarrow> action list \<Rightarrow> 'c \<Rightarrow> 'c cresult" where
  "client_main exch close reachable acts c =
     (case client_init reachable blank_client c of
        None \<Rightarrow> None
      | Some (Raise e, ds, cl, c1) \<Rightarrow> Some (ds @ [Traceback e], cl, c1)
      | Some (Ret _, ds, cl, c1) \<Rightarrow>
          (case run_actions exch close acts cl c1 of
             None \<Rightarrow> None
           | Some (ds2, cl2, c2) \<Rightarrow> Some (ds @ ds2, cl2, c2)))"

text \<open>The command a click sends first, if it sends one.\<close>

fun first_command :: "action \<Rightarrow> pystr option" where
  "first_command (Login u p) = Some (''HELO '' @ u)"
| "first_command CheckBalance = Some ''BALA''"
| "first_command (Withdraw a) = (case py_float a of Inr _ \<Rightarrow> Some (''WDRA '' @ a) | Inl _ \<Rightarrow> None)"
| "first_command Logout = Some ''BYE''"
| "first_command _ = None"

text \<open>
  The lines of the status bar that show the conversation: what was sent and
  what was received (\<open>send_command\<close>, lines 253--254).
\<close>

fun comm_lines :: "(status_msg \<times> tag) list \<Rightarrow> status_msg list" where
  "comm_lines [] = []"
| "comm_lines ((Sent cmd, t) # st) = Sent cmd # comm_lines st"
| "comm_lines ((Received r, t) # st) = Received r # comm_lines st"
| "comm_lines (_ # st) = comm_lines st"

text \<open>The conversation as the socket saw it: each command and what its exchange returned.\<close>

fun transcript :: "(pystr \<times> reply) list \<Rightarrow> status_msg list" where
  "transcript [] = []"
| "transcript ((cmd, Reply r) # tr) = Sent cmd # Received r # transcript tr"
| "transcript (_ # tr) = transcript tr"

text \<open>A transport that also records every exchange, and its \<open>close\<close>.\<close>

definition recording :: "'c transport \<Rightarrow> ('c \<times> (pystr \<times> reply) list) transport" where
  "recording exch cmd s = (case s of (c, tr) \<Rightarrow> (case exch cmd c of (r, c') \<Rightarrow> (r, (c', tr @ [(cmd, r)]))))"

definition recording_close :: "('c \<Rightarrow> 'c) \<Rightarrow> 'c \<times> (pystr \<times> reply) list \<Rightarrow> 'c \<times> (pystr \<times> reply) list" where
  "recording_close close s = (case s of (c, tr) \<Rightarrow> (close c, tr))"

section \<open>Invariant\<close>

text \<open>
  While the window is alive, the main screen is shown exactly when a user is
  logged in, and the withdraw panel only on the main screen.
\<close>

definition client_ok :: "client \<Rightarrow> bool" where
  "client_ok cl \<longleftrightarrow> alive cl \<longrightarrow>
     (screen cl = MainScreen \<longleftrightarrow> cur_user cl \<noteq> None) \<and> (panel cl \<longrightarrow> screen cl = MainScreen)"


text \<open>
  What a callback may end with: no traceback among its own dialogs, and it
  returns normally unless the connection was lost and the window destroyed.
\<close>

definition fault_ok :: "unit outcome \<Rightarrow> dialog list \<Rightarrow> client \<Rightarrow> bool" where
  "fault_ok y ds cl' \<longleftrightarrow> (\<forall>e. Traceback e \<notin> set ds) \<and> (y = Ret () \<or> ErrConnection \<in> set ds \<and> \<not> alive cl')"

text \<open>A traceback can only be the last dialog of a run, after a connection error.\<close>

definition tb_last :: "dialog list \<Rightarrow> bool" where
  "tb_last ds \<longleftrightarrow> (\<forall>e. Traceback e \<in> set ds \<longrightarrow> (\<exists>ds0. ds = ds0 @ [Traceback e] \<and> ErrConnection \<in> set ds0))"

section \<open>Evaluating the monad\<close>

lemma cb_then_simps [simp]:
  "cb_then ds None = None"
  "cb_then ds (Some (y, ds2, s)) = Some (y, ds @ ds2, s)"
  "cb_then [] r = r"
  by (simp_all add: cb_then_def split: option.splits)

lemma cb_prims [simp]:
  "cb_return x cl c = Some (Ret x, [], cl, c)"
  "cb_raise e cl c = Some (Raise e, [], cl, c)"
  "destroy cl c = Some (Ret (), [], cl\<lparr>alive := False\<rparr>, c)"
  "set_user u cl c = Some (Ret (), [], cl\<lparr>cur_user := u\<rparr>, c)"
  "get_user cl c = Some (Ret (cur_user cl), [], cl, c)"
  "sock_close close cl c = Some (Ret (), [], cl, close c)"
  by (simp_all add: cb_return_def cb_raise_def destroy_def set_user_def get_user_def sock_close_def)

lemma widget_simps [simp]:
  "alive cl \<Longrightarrow> widget f cl c = Some (Ret (), fst (f cl), snd (f cl), c)"
  "\<not> alive cl \<Longrightarrow> widget f cl c = Some (Raise TclError, [], cl, c)"
  by (simp_all add: widget_def split: prod.split)

lemma cb_bind_apply:
  "cb_bind m f cl c =
     (case m cl c of
        None \<Rightarrow> None
      | Some (Ret x, ds, cl1, c1) \<Rightarrow> cb_then ds (f x cl1 c1)
      | Some (Raise e, ds, cl1, c1) \<Rightarrow> Some (Raise e, ds, cl1, c1))"
  by (rule cb_bind_def)

lemma cb_catch_apply:
  "cb_catch m P h cl c =
     (case m cl c of
        None \<Rightarrow> None
      | Some (Ret x, ds, cl1, c1) \<Rightarrow> Some (Ret x, ds, cl1, c1)
      | Some (Raise e, ds, cl1, c1) \<Rightarrow>
          if P e then cb_then ds (h cl1 c1) else Some (Raise e, ds, cl1, c1))"
  by (rule cb_catch_def)

lemma cb_bind_return [simp]: "cb_bind (cb_return x) f = f x"
  by (simp add: fun_eq_iff cb_bind_apply)

lemma cb_bind_assoc: "cb_bind (cb_bind m f) g = cb_bind m (\<lambda>x. cb_bind (f x) g)"
  by (simp add: fun_eq_iff cb_bind_apply cb_then_def split: option.split outcome.split prod.split)

text \<open>The rewrites that run a method step by step.\<close>

lemmas cb_eval = cb_bind_apply cb_catch_apply setup_status_bar_def update_status_def show_info_def show_error_def
  clear_main_container_def show_login_ui_def show_main_ui_def show_withdraw_panel_def float_cb_def

lemma client_init_reachable: "client_init True blank_client c = Some (Ret (), [], init_client, c)"
  by (simp add: client_init_def connect_server_def cb_eval blank_client_def init_client_def)

text \<open>
  \<open>send_command\<close> on every branch: a reply is logged and returned; a failed
  \<open>sendall\<close> or \<open>recv\<close> shows the connection error, destroys the window and
  returns \<open>""\<close>; a \<open>recv\<close> that never returns blocks the window.
\<close>

lemma send_command_alive:
  "alive cl \<Longrightarrow> send_command exch cmd cl c =
     (case exch cmd c of
        (Reply r, c') \<Rightarrow>
          Some (Ret r, [], cl\<lparr>status_text := status_text cl @ [(Sent cmd, TagSend), (Received r, TagRecv)]\<rparr>, c')
      | (Hangs, c') \<Rightarrow> None
      | (Fails, c') \<Rightarrow>
          Some (Ret [], [ErrConnection], cl\<lparr>status_text := status_text cl @ [(CommError, TagError)], alive := False\<rparr>, c'))"
  unfolding send_command_def by (simp add: cb_eval sock_exchange_def split: prod.split reply.split)

lemma send_command_reply:
  "alive cl \<Longrightarrow> exch cmd c = (Reply r, c') \<Longrightarrow> send_command exch cmd cl c =
     Some (Ret r, [], cl\<lparr>status_text := status_text cl @ [(Sent cmd, TagSend), (Received r, TagRecv)]\<rparr>, c')"
  by (simp add: send_command_alive)

text \<open>A value \<open>float()\<close> rejects is never sent: the transport is not used.\<close>

lemma withdraw_rejected:
  "alive cl \<Longrightarrow> py_float a = Inl e \<Longrightarrow>
     withdraw exch a cl c = Some (Ret (), [ErrBadAmount], cl\<lparr>status_text := status_text cl @ [(BadAmount, TagError)]\<rparr>, c)"
  using py_float_error [of a e] by (simp add: withdraw_def cb_eval)

section \<open>Invariant\<close>

lemma client_ok_init: "client_ok init_client"
  by (simp add: client_ok_def init_client_def)

lemma client_ok_dead [simp]: "\<not> alive cl \<Longrightarrow> client_ok cl"
  by (simp add: client_ok_def)

lemma run_action_client_ok:
  assumes "alive cl" "enabled a cl" "client_ok cl"
  shows "case run_action exch close a cl c of None \<Rightarrow> True | Some (y, ds, cl', c') \<Rightarrow> client_ok cl'"
proof (cases a)
  case (Login u p)
  with assms show ?thesis
    by (simp add: login_def cb_eval send_command_alive client_ok_def split: prod.split reply.split)
next
  case Exit
  with assms show ?thesis by (simp add: on_closing_def cb_eval)
next
  case CheckBalance
  with assms show ?thesis
    by (simp add: check_balance_def cb_eval send_command_alive client_ok_def
        split: prod.split reply.split sum.split)
next
  case OpenWithdraw
  with assms show ?thesis by (simp add: cb_eval client_ok_def)
next
  case (Withdraw x)
  with assms show ?thesis
    by (simp add: withdraw_def cb_eval send_command_alive client_ok_def
        split: prod.split reply.split sum.split)
next
  case Logout
  with assms show ?thesis
    by (simp add: logout_def cb_eval send_command_alive client_ok_def split: prod.split reply.split)
qed

lemma callback_client_ok:
  "callback m cl c = Some (ds, cl', c') \<Longrightarrow>
     (case m cl c of None \<Rightarrow> True | Some (y, ds, cl', c') \<Rightarrow> client_ok cl') \<Longrightarrow> client_ok cl'"
  by (auto simp: callback_def split: option.splits prod.splits outcome.splits)

text \<open>
  C10: along any run of clicks on the two screens, whatever the other
  side replies, while the window is alive it shows its main screen exactly
  when it holds a logged-in user, and the withdraw panel only there.
\<close>

theorem run_actions_client_ok:
  "run_actions exch close as cl c = Some (ds, cl', c') \<Longrightarrow> client_ok cl \<Longrightarrow> client_ok cl'"
proof (induction as arbitrary: ds cl c)
  case Nil
  then show ?case by simp
next
  case (Cons a as)
  show ?case
  proof (cases "alive cl \<and> enabled a cl")
    case False
    with Cons show ?thesis by (auto split: if_splits)
  next
    case True
    then obtain ds1 cl1 c1 ds2 where
      a: "callback (run_action exch close a) cl c = Some (ds1, cl1, c1)" and
      r: "run_actions exch close as cl1 c1 = Some (ds2, cl', c')"
      using Cons.prems(1) by (auto split: option.splits prod.splits)
    have "client_ok cl1"
      using callback_client_ok [OF a run_action_client_ok] True Cons.prems(2) by blast
    with r show ?thesis by (rule Cons.IH)
  qed
qed

theorem run_actions_client_ok_witness:
  "run_actions (\<lambda>cmd u. (Reply ''500 AUTH REQUIRE / 525 OK!'', u)) id [Login ''alice'' ''pw'', OpenWithdraw]
     init_client () = Some ([], \<lparr>cur_user = Some ''alice'', screen = MainScreen, panel = True, alive = True,
       status_text = status_text init_client @ [(TryLogin ''alice'', TagSys),
         (Sent ''HELO alice'', TagSend), (Received ''500 AUTH REQUIRE / 525 OK!'', TagRecv),
         (Sent ''PASS pw'', TagSend), (Received ''500 AUTH REQUIRE / 525 OK!'', TagRecv),
         (LoggedIn (Some ''alice''), TagSys), (WithdrawShown, TagSys)]\<rparr>, ()) \<and>
   client_ok init_client \<and>
   client_ok \<lparr>cur_user = Some ''alice'', screen = MainScreen, panel = True, alive = True,
       status_text = status_text init_client @ [(TryLogin ''alice'', TagSys),
         (Sent ''HELO alice'', TagSend), (Received ''500 AUTH REQUIRE / 525 OK!'', TagRecv),
         (Sent ''PASS pw'', TagSend), (Received ''500 AUTH REQUIRE / 525 OK!'', TagRecv),
         (LoggedIn (Some ''alice''), TagSys), (WithdrawShown, TagSys)]\<rparr>"
proof -
  have r: "run_actions (\<lambda>cmd u. (Reply ''500 AUTH REQUIRE / 525 OK!'', u)) id [Login ''alice'' ''pw'', OpenWithdraw]
     init_client () = Some ([], \<lparr>cur_user = Some ''alice'', screen = MainScreen, panel = True, alive = True,
       status_text = status_text init_client @ [(TryLogin ''alice'', TagSys),
         (Sent ''HELO alice'', TagSend), (Received ''500 AUTH REQUIRE / 525 OK!'', TagRecv),
         (Sent ''PASS pw'', TagSend), (Received ''500 AUTH REQUIRE / 525 OK!'', TagRecv),
         (LoggedIn (Some ''alice''), TagSys), (WithdrawShown, TagSys)]\<rparr>, ())"
    by (simp add: init_client_def login_def callback_def cb_eval send_command_alive)
  from r client_ok_init run_actions_client_ok [OF r client_ok_init] show ?thesis by simp
qed

section \<open>The status bar is a transcript of the conversation\<close>

lemma comm_lines_append [simp]: "comm_lines (xs @ ys) = comm_lines xs @ comm_lines ys"
  by (induction xs rule: comm_lines.induct) simp_all

lemma transcript_append [simp]: "transcript (xs @ ys) = transcript xs @ transcript ys"
  by (induction xs rule: transcript.induct) simp_all

lemma run_action_transcript:
  assumes "alive cl" "comm_lines (status_text cl) = transcript tr"
  shows "case run_action (recording exch) (recording_close close) a cl (c, tr) of None \<Rightarrow> True
     | Some (y, ds, cl', c', tr') \<Rightarrow> comm_lines (status_text cl') = transcript tr'"
  using assms
  by (cases a) (simp_all add: login_def check_balance_def withdraw_def logout_def on_closing_def cb_eval
      send_command_alive recording_def recording_close_def split: prod.split reply.split sum.split)

lemma run_actions_transcript:
  "run_actions (recording exch) (recording_close close) acts cl (c, tr) = Some (ds, cl', c', tr') \<Longrightarrow>
     comm_lines (status_text cl) = transcript tr \<Longrightarrow> comm_lines (status_text cl') = transcript tr'"
proof (induction acts arbitrary: ds cl c tr)
  case Nil
  then show ?case by simp
next
  case (Cons a acts)
  show ?case
  proof (cases "alive cl \<and> enabled a cl")
    case False
    with Cons show ?thesis by (auto split: if_splits)
  next
    case True
    then obtain ds1 cl1 c1 tr1 ds2 where
      a: "callback (run_action (recording exch) (recording_close close) a) cl (c, tr) = Some (ds1, cl1, c1, tr1)" and
      r: "run_actions (recording exch) (recording_close close) acts cl1 (c1, tr1) = Some (ds2, cl', c', tr')"
      using Cons.prems(1) by (auto split: option.splits prod.splits)
    have "comm_lines (status_text cl1) = transcript tr1"
      using a run_action_transcript [of cl tr exch close a c] True Cons.prems(2)
      by (auto simp: callback_def split: option.splits outcome.splits)
    with r show ?thesis by (rule Cons.IH)
  qed
qed

text \<open>
  C28: over a whole run of the program, whatever the other side
  replies and whatever the user clicks, the \<open>Sent\<close> and \<open>Received\<close> lines of
  the status bar are exactly the exchanges of the socket that returned a
  reply, in order: nothing is shown that was not exchanged, and a failed
  exchange shows no such line.
\<close>

theorem status_bar_transcript:
  assumes "client_main (recording exch) (recording_close close) reachable acts (c, []) = Some (ds, cl', c', tr')"
  shows "comm_lines (status_text cl') = transcript tr'"
proof (cases reachable)
  case True
  with assms have "run_actions (recording exch) (recording_close close) acts init_client (c, []) =
      Some (drop 0 ds, cl', c', tr')"
    by (auto simp: client_main_def client_init_reachable split: option.splits prod.splits)
  then show ?thesis by (rule run_actions_transcript) (simp add: init_client_def)
next
  case False
  with assms show ?thesis
    by (auto simp: client_main_def client_init_def connect_server_def cb_eval blank_client_def)
qed

theorem status_bar_transcript_witness:
  "client_main (recording (\<lambda>cmd u. (if cmd = ''HELO a'' then Reply ''500 AUTH REQUIRE'' else Fails, u)))
     (recording_close id) True [Login ''a'' ''b''] ((), []) =
   Some ([ErrConnection, Traceback TclError],
     init_client\<lparr>alive := False, status_text := status_text init_client @ [(TryLogin ''a'', TagSys),
       (Sent ''HELO a'', TagSend), (Received ''500 AUTH REQUIRE'', TagRecv), (CommError, TagError)]\<rparr>,
     (), [(''HELO a'', Reply ''500 AUTH REQUIRE''), (''PASS b'', Fails)]) \<and>
   comm_lines (status_text init_client @ [(TryLogin ''a'', TagSys),
       (Sent ''HELO a'', TagSend), (Received ''500 AUTH REQUIRE'', TagRecv), (CommError, TagError)]) =
   transcript [(''HELO a'', Reply ''500 AUTH REQUIRE''), (''PASS b'', Fails)]"
proof -
  have r: "client_main (recording (\<lambda>cmd u. (if cmd = ''HELO a'' then Reply ''500 AUTH REQUIRE'' else Fails, u)))
     (recording_close id) True [Login ''a'' ''b''] ((), []) =
   Some ([ErrConnection, Traceback TclError],
     init_client\<lparr>alive := False, status_text := status_text init_client @ [(TryLogin ''a'', TagSys),
       (Sent ''HELO a'', TagSend), (Received ''500 AUTH REQUIRE'', TagRecv), (CommError, TagError)]\<rparr>,
     (), [(''HELO a'', Reply ''500 AUTH REQUIRE''), (''PASS b'', Fails)])"
    by (simp add: client_main_def client_init_reachable init_client_def login_def callback_def cb_eval
        send_command_alive recording_def)
  from r status_bar_transcript [OF r] show ?thesis by simp
qed
section \<open>A lost or missing connection\<close>

text \<open>
  C27: when the connection breaks on the first command a click
  sends, the user sees the connection-error dialog and the window is
  destroyed, and then the callback dies with \<open>TclError\<close>: \<open>send_command\<close>
  returns \<open>""\<close> to a caller that goes on to update the destroyed status bar.
\<close>

theorem lost_connection_traceback:
  assumes "alive cl" "first_command a = Some cmd" "exch cmd c = (Fails, c')"
  shows "\<exists>cl'. callback (run_action exch close a) cl c = Some ([ErrConnection, Traceback TclError], cl', c') \<and>
    \<not> alive cl'"
proof (cases a)
  case (Withdraw x)
  with assms show ?thesis
    by (auto simp: withdraw_def cb_eval send_command_alive callback_def split: sum.splits)
qed (use assms in \<open>auto simp: login_def check_balance_def logout_def cb_eval send_command_alive callback_def\<close>)

theorem lost_connection_traceback_witness:
  "alive init_client \<and> first_command (Login ''alice'' ''pw'') = Some ''HELO alice'' \<and>
   (\<lambda>cmd u. (Fails, u)) ''HELO alice'' () = (Fails, ()) \<and>
   (\<exists>cl'. callback (run_action (\<lambda>cmd u. (Fails, u)) id (Login ''alice'' ''pw'')) init_client () =
      Some ([ErrConnection, Traceback TclError], cl', ()) \<and> \<not> alive cl')"
proof -
  have h: "alive init_client \<and> first_command (Login ''alice'' ''pw'') = Some ''HELO alice''"
    by (simp add: init_client_def)
  with lost_connection_traceback [of init_client "Login ''alice'' ''pw''" "''HELO alice''"
      "\<lambda>cmd u. (Fails, u)" "()" "()" id]
  show ?thesis by simp
qed

text \<open>
  When the server cannot be reached, the constructor shows the
  connection error and destroys the window, and then \<open>show_login_ui\<close>
  raises \<open>TclError\<close> out of the constructor: the program ends with a
  traceback before its main loop, whatever the user would click, and nothing
  is sent.
\<close>

lemma unreachable_server_crashes:
  "client_main exch close False acts c = Some ([ErrNoServer, Traceback TclError],
     blank_client\<lparr>alive := False, status_text := [(Connecting, TagSys), (ConnectFailed, TagError)]\<rparr>, c)"
  by (simp add: client_main_def client_init_def connect_server_def cb_eval blank_client_def)

section \<open>Faults a callback lets escape\<close>

text \<open>
  Over a transport that keeps an invariant \<open>I\<close> of the other side and
  answers \<open>BALA\<close> with a number \<open>float()\<close> reads whenever the reply starts
  with \<open>AMNT:\<close>, a callback raises only after a failed exchange has shown the
  connection error and destroyed the window; so a traceback can only be the
  last dialog of a run.
\<close>

lemma exchange_cases:
  obtains (reply) r c' where "exch cmd c = (Reply r, c')"
  | (hangs) c' where "exch cmd c = (Hangs, c')"
  | (fails) c' where "exch cmd c = (Fails, c')"
  by (cases "exch cmd c" rule: prod.exhaust, rename_tac x c', case_tac x) auto

lemma run_action_faults:
  assumes "alive cl" "I c"
    and inv: "\<And>cmd c r c'. exch cmd c = (r, c') \<Longrightarrow> I c \<Longrightarrow> I c'"
    and close: "\<And>c. I c \<Longrightarrow> I (close c)"
    and bala: "\<And>c r c'. I c \<Longrightarrow> exch ''BALA'' c = (Reply r, c') \<Longrightarrow> take 5 r = ''AMNT:'' \<Longrightarrow>
      \<exists>x. py_float (py_split_sep CHR '':'' r ! 1) = Inr x"
  shows "case run_action exch close a cl c of None \<Rightarrow> True
    | Some (y, ds, cl', c') \<Rightarrow> fault_ok y ds cl' \<and> I c'"
proof (cases a)
  case (Login u p)
  show ?thesis
  proof (cases rule: exchange_cases [of exch "''HELO '' @ u" c])
    case (reply r c1)
    have i1: "I c1" using inv [OF reply \<open>I c\<close>] .
    show ?thesis
    proof (cases rule: exchange_cases [of exch "''PASS '' @ p" c1])
      case (reply r2 c2)
      have "I c2" using inv [OF reply i1] .
      with Login i1 assms(1) \<open>exch (''HELO '' @ u) c = (Reply r, c1)\<close> reply show ?thesis
        by (simp add: login_def cb_eval send_command_alive fault_ok_def)
    next
      case (hangs c2)
      with Login assms(1) reply i1 show ?thesis by (simp add: login_def cb_eval send_command_alive fault_ok_def)
    next
      case (fails c2)
      have "I c2" using inv [OF fails i1] .
      with Login i1 assms(1) \<open>exch (''HELO '' @ u) c = (Reply r, c1)\<close> fails show ?thesis
        by (simp add: login_def cb_eval send_command_alive fault_ok_def)
    qed
  next
    case (hangs c1)
    with Login assms(1) show ?thesis by (simp add: login_def cb_eval send_command_alive)
  next
    case (fails c1)
    have "I c1" using inv [OF fails \<open>I c\<close>] .
    with Login assms(1) fails show ?thesis by (simp add: login_def cb_eval send_command_alive fault_ok_def)
  qed
next
  case Exit
  with assms(1,2) close show ?thesis by (simp add: on_closing_def cb_eval fault_ok_def)
next
  case CheckBalance
  show ?thesis
  proof (cases rule: exchange_cases [of exch "''BALA''" c])
    case (reply r c1)
    have i1: "I c1" using inv [OF reply \<open>I c\<close>] .
    show ?thesis
    proof (cases "take 5 r = ''AMNT:''")
      case True
      then obtain x where "py_float (py_split_sep CHR '':'' r ! 1) = Inr x" using bala [OF \<open>I c\<close> reply] by blast
      with CheckBalance assms(1) reply i1 True show ?thesis
        by (simp add: check_balance_def cb_eval send_command_alive fault_ok_def)
    next
      case False
      with CheckBalance assms(1) reply i1 show ?thesis
        by (simp add: check_balance_def cb_eval send_command_alive fault_ok_def)
    qed
  next
    case (hangs c1)
    with CheckBalance assms(1) show ?thesis by (simp add: check_balance_def cb_eval send_command_alive)
  next
    case (fails c1)
    have "I c1" using inv [OF fails \<open>I c\<close>] .
    with CheckBalance assms(1) fails show ?thesis
      by (simp add: check_balance_def cb_eval send_command_alive fault_ok_def)
  qed
next
  case OpenWithdraw
  with assms(1,2) show ?thesis by (simp add: cb_eval fault_ok_def)
next
  case (Withdraw x)
  show ?thesis
  proof (cases rule: exchange_cases [of exch "''WDRA '' @ x" c])
    case (reply r c1)
    have i1: "I c1" using inv [OF reply \<open>I c\<close>] .
    with Withdraw assms(1,2) reply py_float_error [of x] show ?thesis
      by (simp add: withdraw_def cb_eval send_command_alive fault_ok_def split: sum.split)
  next
    case (hangs c1)
    with Withdraw assms(1,2) py_float_error [of x] show ?thesis
      by (simp add: withdraw_def cb_eval send_command_alive fault_ok_def split: sum.split)
  next
    case (fails c1)
    have i1: "I c1" using inv [OF fails \<open>I c\<close>] .
    with Withdraw assms(1,2) fails py_float_error [of x] show ?thesis
      by (simp add: withdraw_def cb_eval send_command_alive fault_ok_def split: sum.split)
  qed
next
  case Logout
  show ?thesis
  proof (cases rule: exchange_cases [of exch "''BYE''" c])
    case (reply r c1)
    have i1: "I c1" using inv [OF reply \<open>I c\<close>] .
    with Logout assms(1) reply show ?thesis by (simp add: logout_def cb_eval send_command_alive fault_ok_def)
  next
    case (hangs c1)
    with Logout assms(1) show ?thesis by (simp add: logout_def cb_eval send_command_alive)
  next
    case (fails c1)
    have i1: "I c1" using inv [OF fails \<open>I c\<close>] .
    with Logout assms(1) fails show ?thesis by (simp add: logout_def cb_eval send_command_alive fault_ok_def)
  qed
qed

lemma tb_last_Nil [simp]: "tb_last []"
  by (simp add: tb_last_def)

lemma run_actions_faults:
  assumes "run_actions exch close acts cl c = Some (ds, cl', c')" "I c"
    and inv: "\<And>cmd c r c'. exch cmd c = (r, c') \<Longrightarrow> I c \<Longrightarrow> I c'"
    and close: "\<And>c. I c \<Longrightarrow> I (close c)"
    and bala: "\<And>c r c'. I c \<Longrightarrow> exch ''BALA'' c = (Reply r, c') \<Longrightarrow> take 5 r = ''AMNT:'' \<Longrightarrow>
      \<exists>x. py_float (py_split_sep CHR '':'' r ! 1) = Inr x"
  shows "tb_last ds"
  using assms(1,2)
proof (induction acts arbitrary: ds cl c)
  case Nil
  then show ?case by simp
next
  case (Cons a acts)
  show ?case
  proof (cases "alive cl \<and> enabled a cl")
    case False
    with Cons show ?thesis by (auto split: if_splits)
  next
    case True
    then obtain y ds1 cl1 c1 ds2 where
      a: "run_action exch close a cl c = Some (y, ds1, cl1, c1)" and
      r: "run_actions exch close acts cl1 c1 = Some (ds2, cl', c')" and
      d: "ds = (case y of Ret _ \<Rightarrow> ds1 | Raise e \<Rightarrow> ds1 @ [Traceback e]) @ ds2"
      using Cons.prems(1) by (auto simp: callback_def split: option.splits prod.splits outcome.splits)
    have h: "fault_ok y ds1 cl1 \<and> I c1"
      using run_action_faults [of cl I c exch close a, OF conjunct1 [OF True] Cons.prems(2) inv close bala] a
      by simp
    show ?thesis
    proof (cases y)
      case (Ret u)
      have "tb_last ds2" using Cons.IH [OF r] h by blast
      with h d Ret show ?thesis by (auto simp: tb_last_def fault_ok_def)
    next
      case (Raise e)
      with h have "\<not> alive cl1" "ErrConnection \<in> set ds1" "\<forall>e. Traceback e \<notin> set ds1"
        by (auto simp: fault_ok_def)
      moreover have "ds2 = []" using r \<open>\<not> alive cl1\<close> by (cases acts) auto
      ultimately show ?thesis using d Raise by (auto simp: tb_last_def)
    qed
  qed
qed

end
