(* ===== verification/Ledger.thy ===== *)
theory Ledger
  imports PyNum
begin

text \<open>
  The ledger store of src/code/server.py: \<open>self.accounts\<close>, the dict that
  \<open>json.load\<close> reads from \<open>accounts.json\<close> (\<open>BankServer.load_accounts\<close>),
  each value a dict with the keys \<open>password\<close> and \<open>balance\<close>; the file itself;
  \<open>save_accounts\<close>, which rewrites the whole file; and the in-place debit
  \<open>self.accounts[u]['balance'] -= amount\<close> of \<open>WDRA\<close>.
  The file is modelled by the value it decodes to (\<open>Json\<close>), by its absence,
  or as unreadable (\<open>Corrupt\<close>); a write is made by \<open>open(..., 'w')\<close>, which
  truncates, and then \<open>json.dump\<close>, so a write that fails after the open leaves
  a truncated, unreadable file.  Which of the two can fail is the file system's
  choice, a parameter \<open>fs_mode\<close> of the model.
\<close>

record account =
  password :: pystr
  balance :: pynum

type_synonym ledger = "pystr \<rightharpoonup> account"

datatype ledger_file = NoFile | Corrupt | Json ledger

datatype fs_mode = FsOk | FsOpenFails | FsWriteFails

section \<open>Loading and saving\<close>

text \<open>
  \<open>load_accounts\<close>: the decoded file, \<open>{}\<close> when it does not exist
  (\<open>FileNotFoundError\<close> is caught), and the \<open>JSONDecodeError\<close> of a corrupt
  file propagates out of \<open>BankServer.__init__\<close>.
\<close>

fun load_accounts :: "ledger_file \<Rightarrow> ledger py_result" where
  "load_accounts NoFile = Inr Map.empty"
| "load_accounts Corrupt = Inl JSONDecodeError"
| "load_accounts (Json l) = Inr l"

text \<open>
  \<open>save_accounts\<close>: the outcome and the file afterwards.  An \<open>open\<close> that
  fails leaves the old file; a failure inside \<open>json.dump\<close> leaves the file
  truncated.
\<close>

fun save_accounts :: "fs_mode \<Rightarrow> ledger \<Rightarrow> ledger_file \<Rightarrow> unit py_result \<times> ledger_file" where
  "save_accounts FsOk l f = (Inr (), Json l)"
| "save_accounts FsOpenFails l f = (Inl OSError, f)"
| "save_accounts FsWriteFails l f = (Inl OSError, Corrupt)"

section \<open>The debit\<close>

text \<open>\<open>self.accounts[u]['balance'] -= amount\<close>, for a key \<open>u\<close> that is present.\<close>

definition debit :: "ledger \<Rightarrow> pystr \<Rightarrow> pyfloat \<Rightarrow> ledger" where
  "debit l u x =
     (case l u of
        None \<Rightarrow> l
      | Some a \<Rightarrow> l(u \<mapsto> a\<lparr>balance := py_sub (balance a) x\<rparr>))"

section \<open>Invariants of the ledger\<close>

text \<open>The passwords of the accounts: no operation of the server changes them.\<close>

definition passwords :: "ledger \<Rightarrow> pystr \<rightharpoonup> pystr" where
  "passwords l = (\<lambda>u. map_option password (l u))"

text \<open>No balance is negative in Python's sense (\<open>balance < 0\<close> is false).\<close>

definition no_negative :: "ledger \<Rightarrow> bool" where
  "no_negative l \<longleftrightarrow> (\<forall>u a. l u = Some a \<longrightarrow> \<not> py_negative (balance a))"

section \<open>Lemmas\<close>

lemma save_accounts_ok [simp]:
  "fst (save_accounts m l f) = Inr () \<longleftrightarrow> m = FsOk"
  by (cases m) simp_all

lemma save_accounts_Inr [simp]:
  "save_accounts m l f = (Inr u, f') \<longleftrightarrow> m = FsOk \<and> f' = Json l"
  by (cases m) auto

lemma save_accounts_Inl [simp]:
  "save_accounts m l f = (Inl e, f') \<longleftrightarrow>
     e = OSError \<and> (m = FsOpenFails \<and> f' = f \<or> m = FsWriteFails \<and> f' = Corrupt)"
  by (cases m) auto

lemma load_save_accounts [simp]:
  "load_accounts (snd (save_accounts FsOk l f)) = Inr l"
  by simp

lemma dom_debit [simp]: "dom (debit l u x) = dom l"
  by (auto simp: debit_def split: option.splits)

lemma debit_same [simp]:
  "l u = Some a \<Longrightarrow> debit l u x u = Some (a\<lparr>balance := py_sub (balance a) x\<rparr>)"
  by (simp add: debit_def)

lemma debit_other [simp]: "v \<noteq> u \<Longrightarrow> debit l u x v = l v"
  by (simp add: debit_def split: option.splits)

lemma debit_password:
  "map_option password (debit l u x v) = map_option password (l v)"
  by (cases "v = u") (auto simp: debit_def split: option.splits)

lemma passwords_debit [simp]: "passwords (debit l u x) = passwords l"
  by (rule ext) (simp add: passwords_def debit_password)

lemma no_negative_debit:
  assumes "no_negative l" "l u = Some a" "py_ge (balance a) x"
  shows "no_negative (debit l u x)"
  unfolding no_negative_def
proof (intro allI impI)
  fix v b
  assume v: "debit l u x v = Some b"
  show "\<not> py_negative (balance b)"
  proof (cases "v = u")
    case True
    with v assms(2) have "b = a\<lparr>balance := py_sub (balance a) x\<rparr>" by simp
    with assms(3) show ?thesis by (simp add: py_ge_sub_not_negative)
  next
    case False
    with v assms(1) show ?thesis by (simp add: no_negative_def)
  qed
qed

end
