(* ===== verification/Server.thy ===== *)
theory Server
  imports Ledger
begin

text \<open>
  \<open>BankServer.handle_client\<close> of src/code/server.py (lines 33--84): the loop
  that reads one chunk from the connection, strips and splits it, and runs the
  command named by its first word against the connection's local
  \<open>current_user\<close> and the shared ledger.  Each command is one definition
  (\<open>cmd_helo\<close>, \<open>cmd_pass\<close>, \<open>cmd_bala\<close>, \<open>cmd_wdra\<close>, \<open>cmd_bye\<close>), the
  dispatch on the first word is \<open>handle_parts\<close>, one turn of the loop is
  \<open>handle_event\<close>, and the loop is \<open>serve\<close>, by recursion on the chunks the
  peer sends.  A command returns how the loop goes on (\<open>Continue\<close>, \<open>Break\<close>,
  or an exception that leaves \<open>handle_client\<close>), the messages it sent, and the
  new server and session; the effects made before an exception are kept, as in
  Python.
\<close>

section \<open>State\<close>

type_synonym peer = nat

datatype log_event =
    AuthRequired pystr
  | LoginSuccess pystr
  | BalanceChecked pystr
  | WithdrawOk pystr pyfloat
  | SessionEnded "pystr option"

type_synonym log_entry = "peer \<times> log_event"

text \<open>
  The server: \<open>self.accounts\<close>, and the environment its methods write:
  \<open>accounts.json\<close>, how the file system treats a write, and \<open>server.log\<close>
  (\<open>BankServer.log\<close>; the timestamp is not modelled).
\<close>

record server =
  accounts :: ledger
  disk :: ledger_file
  fs :: fs_mode
  log :: "log_entry list"

text \<open>The locals of one \<open>handle_client\<close> call: \<open>addr\<close> and \<open>current_user\<close>.\<close>

record session =
  peer :: peer
  current_user :: "pystr option"

datatype flow = Continue | Break | Raised py_error

type_synonym outcome = "flow \<times> pystr list \<times> server \<times> session"

definition log_ev :: "peer \<Rightarrow> log_event \<Rightarrow> server \<Rightarrow> server" where
  "log_ev p e srv = srv\<lparr>log := log srv @ [(p, e)]\<rparr>"

text \<open>The replies, byte for byte.\<close>

definition AUTH_REQUIRE :: pystr where "AUTH_REQUIRE = ''500 AUTH REQUIRE''"
definition ERROR :: pystr where "ERROR = ''401 ERROR!''"
definition OK :: pystr where "OK = ''525 OK!''"
definition BYE :: pystr where "BYE = ''BYE''"
definition AMNT :: "pynum \<Rightarrow> pystr" where "AMNT b = ''AMNT:'' @ py_str_num b"

lemmas reply_defs = AUTH_REQUIRE_def ERROR_def OK_def BYE_def AMNT_def

section \<open>The commands\<close>

text \<open>\<open>HELO userid\<close> (lines 44--51): an unknown id leaves \<open>current_user\<close> as it was.\<close>

definition cmd_helo :: "pystr list \<Rightarrow> server \<Rightarrow> session \<Rightarrow> outcome" where
  "cmd_helo parts srv ss =
     (case py_index parts 1 of
        Inl e \<Rightarrow> (Raised e, [], srv, ss)
      | Inr userid \<Rightarrow>
          if userid \<in> dom (accounts srv)
          then (Continue, [AUTH_REQUIRE], log_ev (peer ss) (AuthRequired userid) srv,
                ss\<lparr>current_user := Some userid\<rparr>)
          else (Continue, [ERROR], srv, ss))"

text \<open>
  \<open>PASS password\<close> (lines 53--59): \<open>current_user and ...\<close> is false for
  \<open>None\<close> and for the empty string; a correct password changes nothing but the
  log.
\<close>

definition cmd_pass :: "pystr list \<Rightarrow> server \<Rightarrow> session \<Rightarrow> outcome" where
  "cmd_pass parts srv ss =
     (case py_index parts 1 of
        Inl e \<Rightarrow> (Raised e, [], srv, ss)
      | Inr pw \<Rightarrow>
          (case current_user ss of
             None \<Rightarrow> (Continue, [ERROR], srv, ss)
           | Some u \<Rightarrow>
               if u = [] then (Continue, [ERROR], srv, ss)
               else
                 (case py_lookup (accounts srv) u of
                    Inl e \<Rightarrow> (Raised e, [], srv, ss)
                  | Inr a \<Rightarrow>
                      if password a = pw
                      then (Continue, [OK], log_ev (peer ss) (LoginSuccess u) srv, ss)
                      else (Continue, [ERROR], srv, ss))))"

text \<open>\<open>BALA\<close> (lines 61--65): nothing is sent when \<open>current_user\<close> is falsy.\<close>

definition cmd_bala :: "server \<Rightarrow> session \<Rightarrow> outcome" where
  "cmd_bala srv ss =
     (case current_user ss of
        None \<Rightarrow> (Continue, [], srv, ss)
      | Some u \<Rightarrow>
          if u = [] then (Continue, [], srv, ss)
          else
            (case py_lookup (accounts srv) u of
               Inl e \<Rightarrow> (Raised e, [], srv, ss)
             | Inr a \<Rightarrow>
                 (Continue, [AMNT (balance a)], log_ev (peer ss) (BalanceChecked u) srv, ss)))"

text \<open>
  The body of \<open>with self.lock:\<close> in \<open>WDRA\<close> (lines 69--76): look the
  account up (\<open>self.accounts[None]\<close> is a \<open>KeyError\<close>), compare, debit,
  save, reply and log.  A failed save raises after the debit.
\<close>

definition wdra_locked :: "pyfloat \<Rightarrow> server \<Rightarrow> session \<Rightarrow> outcome" where
  "wdra_locked amount srv ss =
     (case current_user ss of
        None \<Rightarrow> (Raised KeyError, [], srv, ss)
      | Some u \<Rightarrow>
          (case py_lookup (accounts srv) u of
             Inl e \<Rightarrow> (Raised e, [], srv, ss)
           | Inr a \<Rightarrow>
               if py_ge (balance a) amount then
                 (let accs = debit (accounts srv) u amount in
                  case save_accounts (fs srv) accs (disk srv) of
                    (Inl e, f) \<Rightarrow> (Raised e, [], srv\<lparr>accounts := accs, disk := f\<rparr>, ss)
                  | (Inr _, f) \<Rightarrow>
                      (Continue, [OK],
                       log_ev (peer ss) (WithdrawOk u amount) (srv\<lparr>accounts := accs, disk := f\<rparr>),
                       ss))
               else (Continue, [ERROR], srv, ss)))"

text \<open>\<open>WDRA amount\<close> (lines 67--76): the amount is parsed before the lock is taken.\<close>

definition cmd_wdra :: "pystr list \<Rightarrow> server \<Rightarrow> session \<Rightarrow> outcome" where
  "cmd_wdra parts srv ss =
     (case py_index parts 1 of
        Inl e \<Rightarrow> (Raised e, [], srv, ss)
      | Inr arg \<Rightarrow>
          (case py_float arg of
             Inl e \<Rightarrow> (Raised e, [], srv, ss)
           | Inr amount \<Rightarrow> wdra_locked amount srv ss))"

text \<open>\<open>BYE\<close> (lines 78--81).\<close>

definition cmd_bye :: "server \<Rightarrow> session \<Rightarrow> outcome" where
  "cmd_bye srv ss = (Break, [BYE], log_ev (peer ss) (SessionEnded (current_user ss)) srv, ss)"

section \<open>Dispatch and the loop\<close>

text \<open>
  \<open>cmd = parts[0]\<close> and the \<open>if\<close>/\<open>elif\<close> chain (lines 41--81); a word
  that names no command falls through all branches and sends nothing.
\<close>

definition handle_parts :: "pystr list \<Rightarrow> server \<Rightarrow> session \<Rightarrow> outcome" where
  "handle_parts parts srv ss =
     (case py_index parts 0 of
        Inl e \<Rightarrow> (Raised e, [], srv, ss)
      | Inr cmd \<Rightarrow>
          if cmd = ''HELO'' then cmd_helo parts srv ss
          else if cmd = ''PASS'' then cmd_pass parts srv ss
          else if cmd = ''BALA'' then cmd_bala srv ss
          else if cmd = ''WDRA'' then cmd_wdra parts srv ss
          else if cmd = ''BYE'' then cmd_bye srv ss
          else (Continue, [], srv, ss))"

text \<open>
  What \<open>conn.recv(1024).decode()\<close> returns: a decoded chunk (\<open>''''\<close> when the
  peer has closed), or bytes that are not UTF-8.
\<close>

datatype recv_event = Recv pystr | Undecodable

text \<open>One turn of \<open>while True\<close> (lines 37--42): an empty stripped chunk breaks.\<close>

fun handle_event :: "recv_event \<Rightarrow> server \<Rightarrow> session \<Rightarrow> outcome" where
  "handle_event Undecodable srv ss = (Raised UnicodeDecodeError, [], srv, ss)"
| "handle_event (Recv raw) srv ss =
     (let data = py_strip raw in
      if data = [] then (Break, [], srv, ss) else handle_parts (py_split data) srv ss)"

text \<open>
  How a handler stops: the loop was left by \<open>break\<close> (the \<open>finally\<close> closes the
  connection), an exception left it (the connection is closed too), or the peer
  sent nothing more and the handler still waits in \<open>recv\<close>.
\<close>

datatype ending = Closed | Crashed py_error | Blocked

fun serve :: "recv_event list \<Rightarrow> server \<Rightarrow> session \<Rightarrow> ending \<times> pystr list \<times> server \<times> session" where
  "serve [] srv ss = (Blocked, [], srv, ss)"
| "serve (ev # evs) srv ss =
     (case handle_event ev srv ss of
        (Continue, out, srv', ss') \<Rightarrow>
          (case serve evs srv' ss' of (en, out', srv'', ss'') \<Rightarrow> (en, out @ out', srv'', ss''))
      | (Break, out, srv', ss') \<Rightarrow> (Closed, out, srv', ss')
      | (Raised e, out, srv', ss') \<Rightarrow> (Crashed e, out, srv', ss'))"

text \<open>\<open>handle_client(conn, addr)\<close>: \<open>current_user = None\<close> at the start.\<close>

definition handle_client :: "recv_event list \<Rightarrow> server \<Rightarrow> peer \<Rightarrow> ending \<times> pystr list \<times> server \<times> session" where
  "handle_client evs srv addr = serve evs srv \<lparr>peer = addr, current_user = None\<rparr>"

section \<open>Invariants and the reply vocabulary\<close>

text \<open>
  The session of a handler is bound, if at all, to an existing account id,
  which is never empty (\<open>split\<close> yields no empty word).
\<close>

definition session_ok :: "server \<Rightarrow> session \<Rightarrow> bool" where
  "session_ok srv ss \<longleftrightarrow>
     (case current_user ss of None \<Rightarrow> True | Some u \<Rightarrow> u \<in> dom (accounts srv) \<and> u \<noteq> [])"

text \<open>The file decodes to the ledger held in memory.\<close>

definition synced :: "server \<Rightarrow> bool" where
  "synced srv \<longleftrightarrow> load_accounts (disk srv) = Inr (accounts srv)"

text \<open>What no command changes: the file-system mode, the account ids, the passwords.\<close>

definition ledger_frame :: "server \<Rightarrow> server \<Rightarrow> bool" where
  "ledger_frame srv srv' \<longleftrightarrow> fs srv' = fs srv \<and> dom (accounts srv') = dom (accounts srv)
     \<and> passwords (accounts srv') = passwords (accounts srv)"

text \<open>A message of the wire vocabulary of the spec (its section 6).\<close>

definition is_reply :: "pystr \<Rightarrow> bool" where
  "is_reply m \<longleftrightarrow> m \<in> {AUTH_REQUIRE, ERROR, OK, BYE} \<or> take 5 m = ''AMNT:''"

section \<open>A concrete server\<close>

text \<open>The account of the spec's scenario (section 8): \<open>alice\<close>, \<open>secret\<close>, 100.0.\<close>

definition alice_acct :: account where
  "alice_acct = \<lparr>password = ''secret'', balance = PyFloat (Fin 100)\<rparr>"

definition demo_srv :: server where
  "demo_srv = \<lparr>accounts = [''alice'' \<mapsto> alice_acct], disk = Json [''alice'' \<mapsto> alice_acct],
     fs = FsOk, log = []\<rparr>"

definition alice_ss :: session where
  "alice_ss = \<lparr>peer = 0, current_user = Some ''alice''\<rparr>"

section \<open>Lemmas\<close>

lemma log_ev_simps [simp]:
  "accounts (log_ev p e srv) = accounts srv"
  "disk (log_ev p e srv) = disk srv"
  "fs (log_ev p e srv) = fs srv"
  "log (log_ev p e srv) = log srv @ [(p, e)]"
  by (simp_all add: log_ev_def)

lemmas command_defs = handle_parts_def cmd_helo_def cmd_pass_def cmd_bala_def cmd_wdra_def
  wdra_locked_def cmd_bye_def

lemmas demo_defs = demo_srv_def alice_acct_def alice_ss_def

lemma wdra_locked_frame:
  assumes "wdra_locked amt srv ss = (fl, out, srv', ss')"
  shows "ss' = ss \<and> ledger_frame srv srv'"
  using assms unfolding wdra_locked_def Let_def ledger_frame_def
  by (clarsimp split: option.splits sum.splits if_splits prod.splits)

lemma wdra_locked_no_negative:
  assumes "wdra_locked amt srv ss = (fl, out, srv', ss')" "no_negative (accounts srv)"
  shows "no_negative (accounts srv')"
  using assms unfolding wdra_locked_def Let_def
  by (clarsimp simp: no_negative_debit split: option.splits sum.splits if_splits prod.splits)

lemma wdra_locked_synced:
  assumes "wdra_locked amt srv ss = (fl, out, srv', ss')" "synced srv" "fl \<noteq> Raised OSError"
  shows "synced srv'"
  using assms unfolding wdra_locked_def Let_def synced_def
  by (clarsimp split: option.splits sum.splits if_splits prod.splits)


lemma cmd_helo_frame:
  assumes "cmd_helo parts srv ss = (fl, out, srv', ss')"
  shows "accounts srv' = accounts srv \<and> disk srv' = disk srv \<and> fs srv' = fs srv
    \<and> (ss' = ss \<or> (\<exists>u. u \<in> set parts \<and> u \<in> dom (accounts srv) \<and> ss' = ss\<lparr>current_user := Some u\<rparr>))"
  using assms unfolding cmd_helo_def
  by (auto split: sum.splits if_splits intro: nth_mem)

lemma cmd_pass_frame:
  assumes "cmd_pass parts srv ss = (fl, out, srv', ss')"
  shows "accounts srv' = accounts srv \<and> disk srv' = disk srv \<and> fs srv' = fs srv \<and> ss' = ss"
  using assms unfolding cmd_pass_def
  by (clarsimp split: sum.splits if_splits option.splits)

lemma cmd_bala_frame:
  assumes "cmd_bala srv ss = (fl, out, srv', ss')"
  shows "accounts srv' = accounts srv \<and> disk srv' = disk srv \<and> fs srv' = fs srv \<and> ss' = ss"
  using assms unfolding cmd_bala_def
  by (clarsimp split: sum.splits if_splits option.splits)

lemma cmd_wdra_frame:
  assumes "cmd_wdra parts srv ss = (fl, out, srv', ss')"
  shows "ss' = ss \<and> ledger_frame srv srv'"
  using assms wdra_locked_frame unfolding cmd_wdra_def
  by (auto simp: ledger_frame_def split: sum.splits)

lemma ledger_frame_refl [simp]: "ledger_frame srv srv"
  by (simp add: ledger_frame_def)

lemma ledger_frame_log_ev [simp]: "ledger_frame srv (log_ev p e srv') = ledger_frame srv srv'"
  by (simp add: ledger_frame_def)

lemma ledger_frame_trans: "ledger_frame a b \<Longrightarrow> ledger_frame b c \<Longrightarrow> ledger_frame a c"
  by (simp add: ledger_frame_def)

lemma ledger_frame_same_accounts:
  "accounts srv' = accounts srv \<Longrightarrow> fs srv' = fs srv \<Longrightarrow> ledger_frame srv srv'"
  by (simp add: ledger_frame_def)

lemma handle_parts_cases_disj:
  "handle_parts parts srv ss \<in> {(Raised IndexError, [], srv, ss), cmd_helo parts srv ss,
     cmd_pass parts srv ss, cmd_bala srv ss, cmd_wdra parts srv ss, cmd_bye srv ss,
     (Continue, [], srv, ss)}"
  by (cases parts) (auto simp: handle_parts_def)

lemma handle_parts_cases:
  obtains (no_cmd) "handle_parts parts srv ss = (Raised IndexError, [], srv, ss)"
  | (helo) "handle_parts parts srv ss = cmd_helo parts srv ss"
  | (pass) "handle_parts parts srv ss = cmd_pass parts srv ss"
  | (bala) "handle_parts parts srv ss = cmd_bala srv ss"
  | (wdra) "handle_parts parts srv ss = cmd_wdra parts srv ss"
  | (bye) "handle_parts parts srv ss = cmd_bye srv ss"
  | (other) "handle_parts parts srv ss = (Continue, [], srv, ss)"
  using handle_parts_cases_disj [of parts srv ss] by blast

lemma handle_parts_frame:
  assumes "handle_parts parts srv ss = (fl, out, srv', ss')"
  shows "ledger_frame srv srv'"
  using assms
proof (cases rule: handle_parts_cases [of parts srv ss])
  case helo
  with assms show ?thesis by (auto dest!: cmd_helo_frame intro: ledger_frame_same_accounts)
next
  case pass
  with assms show ?thesis by (auto dest!: cmd_pass_frame intro: ledger_frame_same_accounts)
next
  case bala
  with assms show ?thesis by (auto dest!: cmd_bala_frame intro: ledger_frame_same_accounts)
next
  case wdra
  with assms show ?thesis by (auto dest!: cmd_wdra_frame)
qed (use assms in \<open>auto simp: cmd_bye_def\<close>)


lemma handle_parts_effect:
  assumes "handle_parts parts srv ss = (fl, out, srv', ss')"
  shows "(accounts srv' = accounts srv \<and> disk srv' = disk srv) \<or> (\<exists>amt. wdra_locked amt srv ss = (fl, out, srv', ss'))"
  using assms
proof (cases rule: handle_parts_cases [of parts srv ss])
  case helo
  with assms show ?thesis by (auto dest!: cmd_helo_frame)
next
  case pass
  with assms show ?thesis by (auto dest!: cmd_pass_frame)
next
  case bala
  with assms show ?thesis by (auto dest!: cmd_bala_frame)
next
  case wdra
  with assms show ?thesis by (auto simp: cmd_wdra_def split: sum.splits)
qed (use assms in \<open>auto simp: cmd_bye_def\<close>)

lemma handle_parts_session:
  assumes "handle_parts parts srv ss = (fl, out, srv', ss')"
  shows "ss' = ss \<or> (\<exists>u \<in> set parts. u \<in> dom (accounts srv) \<and> ss' = ss\<lparr>current_user := Some u\<rparr>)"
  using assms
proof (cases rule: handle_parts_cases [of parts srv ss])
  case helo
  with assms show ?thesis by (auto dest!: cmd_helo_frame)
next
  case pass
  with assms show ?thesis by (auto dest!: cmd_pass_frame)
next
  case bala
  with assms show ?thesis by (auto dest!: cmd_bala_frame)
next
  case wdra
  with assms show ?thesis by (auto dest!: cmd_wdra_frame)
qed (use assms in \<open>auto simp: cmd_bye_def\<close>)

lemma handle_parts_session_ok:
  assumes "handle_parts parts srv ss = (fl, out, srv', ss')" "session_ok srv ss"
    "\<forall>w \<in> set parts. w \<noteq> []"
  shows "session_ok srv' ss'"
proof -
  have "dom (accounts srv') = dom (accounts srv)"
    using handle_parts_frame [OF assms(1)] by (simp add: ledger_frame_def)
  with handle_parts_session [OF assms(1)] assms(2,3) show ?thesis
    by (auto simp: session_ok_def split: option.splits)
qed

lemma handle_parts_no_negative:
  assumes "handle_parts parts srv ss = (fl, out, srv', ss')" "no_negative (accounts srv)"
  shows "no_negative (accounts srv')"
  using handle_parts_effect [OF assms(1)] wdra_locked_no_negative assms(2) by auto

lemma handle_parts_synced:
  assumes "handle_parts parts srv ss = (fl, out, srv', ss')" "synced srv" "fl \<noteq> Raised OSError"
  shows "synced srv'"
  using handle_parts_effect [OF assms(1)] wdra_locked_synced assms(2,3)
  by (auto simp: synced_def)


lemma handle_event_cases:
  assumes "handle_event ev srv ss = (fl, out, srv', ss')"
  shows "(srv' = srv \<and> ss' = ss) \<or> (\<exists>d. handle_parts (py_split d) srv ss = (fl, out, srv', ss'))"
  using assms by (cases ev) (auto simp: Let_def split: if_splits)

lemma handle_event_inv:
  assumes "handle_event ev srv ss = (fl, out, srv', ss')"
    "session_ok srv ss" "no_negative (accounts srv)"
  shows "session_ok srv' ss' \<and> no_negative (accounts srv') \<and> ledger_frame srv srv'"
  using handle_event_cases [OF assms(1)] assms(2,3)
    handle_parts_session_ok handle_parts_no_negative handle_parts_frame py_split_nonempty
  by (metis ledger_frame_refl)

lemma handle_event_synced:
  assumes "handle_event ev srv ss = (fl, out, srv', ss')" "synced srv" "fl \<noteq> Raised OSError"
  shows "synced srv'"
  using handle_event_cases [OF assms(1)] assms(2,3) handle_parts_synced by metis

lemma serve_inv:
  "serve evs srv ss = (en, out, srv', ss') \<Longrightarrow> session_ok srv ss \<Longrightarrow> no_negative (accounts srv)
   \<Longrightarrow> session_ok srv' ss' \<and> no_negative (accounts srv') \<and> ledger_frame srv srv'"
proof (induction evs arbitrary: srv ss en out)
  case Nil
  then show ?case by simp
next
  case (Cons ev evs)
  obtain fl o1 s1 ss1 where ev: "handle_event ev srv ss = (fl, o1, s1, ss1)"
    by (cases "handle_event ev srv ss") auto
  from handle_event_inv [OF ev Cons.prems(2,3)]
  have inv1: "session_ok s1 ss1" "no_negative (accounts s1)" "ledger_frame srv s1" by auto
  show ?case
  proof (cases fl)
    case Continue
    with Cons.prems(1) ev obtain o2 where "serve evs s1 ss1 = (en, o2, srv', ss')"
      by (auto split: prod.splits)
    from Cons.IH [OF this inv1(1,2)] inv1(3) show ?thesis by (blast intro: ledger_frame_trans)
  qed (use Cons.prems(1) ev inv1 in auto)
qed

lemma serve_synced:
  "serve evs srv ss = (en, out, srv', ss') \<Longrightarrow> synced srv \<Longrightarrow> en \<noteq> Crashed OSError \<Longrightarrow> synced srv'"
proof (induction evs arbitrary: srv ss en out)
  case Nil
  then show ?case by simp
next
  case (Cons ev evs)
  obtain fl o1 s1 ss1 where ev: "handle_event ev srv ss = (fl, o1, s1, ss1)"
    by (cases "handle_event ev srv ss") auto
  show ?case
  proof (cases fl)
    case Continue
    with Cons.prems(1) ev obtain o2 where run: "serve evs s1 ss1 = (en, o2, srv', ss')"
      by (auto split: prod.splits)
    from handle_event_synced [OF ev Cons.prems(2)] Continue have "synced s1" by simp
    from Cons.IH [OF run this Cons.prems(3)] show ?thesis .
  next
    case Break
    with Cons.prems ev handle_event_synced [OF ev Cons.prems(2)] show ?thesis by auto
  next
    case (Raised e)
    with Cons.prems ev handle_event_synced [OF ev Cons.prems(2)] show ?thesis by auto
  qed
qed

lemma serve_handle_client_inv:
  assumes "no_negative (accounts srv)"
  shows "case handle_client evs srv p of (en, out, srv', ss') \<Rightarrow>
    session_ok srv' ss' \<and> no_negative (accounts srv') \<and> ledger_frame srv srv'"
proof -
  obtain en out srv' ss' where run: "handle_client evs srv p = (en, out, srv', ss')"
    by (cases "handle_client evs srv p") auto
  have "session_ok srv \<lparr>peer = p, current_user = None\<rparr>" by (simp add: session_ok_def)
  with serve_inv [OF run [unfolded handle_client_def]] assms run show ?thesis by simp
qed

lemma cmd_replies:
  assumes "handle_parts parts srv ss = (fl, out, srv', ss')"
  shows "length out \<le> 1 \<and> list_all is_reply out"
  using assms
proof (cases rule: handle_parts_cases [of parts srv ss])
  case helo
  with assms show ?thesis
    by (auto simp: cmd_helo_def is_reply_def split: sum.splits if_splits)
next
  case pass
  with assms show ?thesis
    by (auto simp: cmd_pass_def is_reply_def split: sum.splits if_splits option.splits)
next
  case bala
  with assms show ?thesis
    by (auto simp: cmd_bala_def is_reply_def AMNT_def split: sum.splits if_splits option.splits)
next
  case wdra
  with assms show ?thesis
    by (auto simp: cmd_wdra_def wdra_locked_def Let_def is_reply_def
        split: sum.splits if_splits option.splits prod.splits)
qed (use assms in \<open>auto simp: cmd_bye_def is_reply_def\<close>)

lemma handle_parts_log:
  assumes "handle_parts parts srv ss = (fl, out, srv', ss')"
  shows "log srv' = log srv \<or> (\<exists>e. log srv' = log srv @ [e])"
  using assms
proof (cases rule: handle_parts_cases [of parts srv ss])
  case helo
  with assms show ?thesis by (auto simp: cmd_helo_def split: sum.splits if_splits)
next
  case pass
  with assms show ?thesis by (auto simp: cmd_pass_def split: sum.splits if_splits option.splits)
next
  case bala
  with assms show ?thesis by (auto simp: cmd_bala_def split: sum.splits if_splits option.splits)
next
  case wdra
  with assms show ?thesis
    by (auto simp: cmd_wdra_def wdra_locked_def Let_def split: sum.splits if_splits option.splits prod.splits)
qed (use assms in \<open>auto simp: cmd_bye_def\<close>)

lemma handle_event_bound:
  assumes "handle_event ev srv ss = (fl, out, srv', ss')"
  shows "length out \<le> 1 \<and> length (log srv') \<le> Suc (length (log srv))"
proof (cases ev)
  case Undecodable
  with assms show ?thesis by simp
next
  case (Recv raw)
  show ?thesis
  proof (cases "py_strip raw = []")
    case True
    with assms Recv show ?thesis by simp
  next
    case False
    with assms Recv have h: "handle_parts (py_split (py_strip raw)) srv ss = (fl, out, srv', ss')"
      by (simp add: Let_def)
    from cmd_replies [OF h] handle_parts_log [OF h] show ?thesis by auto
  qed
qed

section \<open>Properties of the handler\<close>

text \<open>
  C6: a withdrawal by a bound session of an amount the balance covers
  debits the account, rewrites the ledger file with the new ledger, replies
  \<open>525 OK!\<close> and logs the withdrawal; the session is unchanged.
\<close>

theorem wdra_success:
  assumes "current_user ss = Some u" "accounts srv u = Some a" "py_float x = Inr amt"
    "py_ge (balance a) amt" "fs srv = FsOk"
  shows "handle_parts [''WDRA'', x] srv ss =
    (Continue, [OK],
     srv\<lparr>accounts := debit (accounts srv) u amt, disk := Json (debit (accounts srv) u amt),
         log := log srv @ [(peer ss, WithdrawOk u amt)]\<rparr>, ss)"
  using assms by (simp add: handle_parts_def cmd_wdra_def wdra_locked_def log_ev_def Let_def)

theorem wdra_success_witness:
  "current_user alice_ss = Some ''alice'' \<and> accounts demo_srv ''alice'' = Some alice_acct \<and>
   py_float ''40'' = Inr (Fin 40) \<and> py_ge (balance alice_acct) (Fin 40) \<and> fs demo_srv = FsOk \<and>
   handle_parts [''WDRA'', ''40''] demo_srv alice_ss =
    (Continue, [OK],
     demo_srv\<lparr>accounts := debit (accounts demo_srv) ''alice'' (Fin 40),
       disk := Json (debit (accounts demo_srv) ''alice'' (Fin 40)),
       log := log demo_srv @ [(peer alice_ss, WithdrawOk ''alice'' (Fin 40))]\<rparr>, alice_ss)"
proof -
  have h: "current_user alice_ss = Some ''alice''" "accounts demo_srv ''alice'' = Some alice_acct"
    "py_float ''40'' = Inr (Fin 40)" "py_ge (balance alice_acct) (Fin 40)" "fs demo_srv = FsOk"
    by (simp_all add: demo_defs py_float_eval py_ge_def)
  show ?thesis using h wdra_success [OF h] by simp
qed

text \<open>
  C15: a withdrawal the balance does not cover (\<open>balance >= amount\<close>
  is false, which includes every \<open>nan\<close>) replies \<open>401 ERROR!\<close> and changes
  nothing: not the ledger, not the file, not the log, not the session.
\<close>

theorem wdra_insufficient:
  assumes "current_user ss = Some u" "accounts srv u = Some a" "py_float x = Inr amt"
    "\<not> py_ge (balance a) amt"
  shows "handle_parts [''WDRA'', x] srv ss = (Continue, [ERROR], srv, ss)"
  using assms by (simp add: handle_parts_def cmd_wdra_def wdra_locked_def)

theorem wdra_insufficient_witness:
  "current_user alice_ss = Some ''alice'' \<and> accounts demo_srv ''alice'' = Some alice_acct \<and>
   py_float ''1000'' = Inr (Fin 1000) \<and> \<not> py_ge (balance alice_acct) (Fin 1000) \<and>
   handle_parts [''WDRA'', ''1000''] demo_srv alice_ss = (Continue, [ERROR], demo_srv, alice_ss)"
proof -
  have h: "current_user alice_ss = Some ''alice''" "accounts demo_srv ''alice'' = Some alice_acct"
    "py_float ''1000'' = Inr (Fin 1000)" "\<not> py_ge (balance alice_acct) (Fin 1000)"
    by (simp_all add: demo_defs py_float_eval py_ge_def)
  show ?thesis using h wdra_insufficient [OF h] by simp
qed

text \<open>
  C22: an amount \<open>float()\<close> rejects leaves the ledger
  untouched, but the \<open>ValueError\<close> is not caught: no reply is sent and the
  handler ends, closing the connection.
\<close>

theorem wdra_nonnumeric_crashes:
  assumes "py_float x = Inl e"
  shows "handle_parts [''WDRA'', x] srv ss = (Raised ValueError, [], srv, ss)"
  using assms py_float_error [OF assms] by (simp add: handle_parts_def cmd_wdra_def)

theorem wdra_nonnumeric_crashes_witness:
  "py_float ''ten'' = Inl ValueError \<and>
   handle_parts [''WDRA'', ''ten''] demo_srv alice_ss = (Raised ValueError, [], demo_srv, alice_ss)"
proof -
  have h: "py_float ''ten'' = Inl ValueError" by (simp add: py_float_eval)
  show ?thesis using h wdra_nonnumeric_crashes [OF h] by simp
qed

text \<open>
  C16: a negative amount passes the only check the code
  makes (\<open>balance >= amount\<close>), so \<open>WDRA -q\<close> adds \<open>q\<close> to the balance and
  replies \<open>525 OK!\<close>; the spec requires the withdrawal of a non-positive amount
  to be rejected.
\<close>

theorem wdra_negative_amount_credits:
  assumes "current_user ss = Some u" "accounts srv u = Some a" "balance a = PyFloat (Fin b)"
    "0 \<le> b" "0 < q" "py_float x = Inr (Fin (- q))" "fs srv = FsOk"
  shows "\<exists>srv'. handle_parts [''WDRA'', x] srv ss = (Continue, [OK], srv', ss) \<and>
     accounts srv' u = Some (a\<lparr>balance := PyFloat (Fin (b + q))\<rparr>)"
  using assms by (simp add: handle_parts_def cmd_wdra_def wdra_locked_def Let_def py_ge_def py_sub_def)

theorem wdra_negative_amount_credits_witness:
  "current_user alice_ss = Some ''alice'' \<and> accounts demo_srv ''alice'' = Some alice_acct \<and>
   balance alice_acct = PyFloat (Fin 100) \<and> (0::rat) \<le> 100 \<and> (0::rat) < 50 \<and>
   py_float ''-50'' = Inr (Fin (- 50)) \<and> fs demo_srv = FsOk \<and>
   (\<exists>srv'. handle_parts [''WDRA'', ''-50''] demo_srv alice_ss = (Continue, [OK], srv', alice_ss) \<and>
     accounts srv' ''alice'' = Some (alice_acct\<lparr>balance := PyFloat (Fin (100 + 50))\<rparr>))"
proof -
  have h: "current_user alice_ss = Some ''alice''" "accounts demo_srv ''alice'' = Some alice_acct"
    "balance alice_acct = PyFloat (Fin 100)" "(0::rat) \<le> 100" "(0::rat) < 50"
    "py_float ''-50'' = Inr (Fin (- 50))" "fs demo_srv = FsOk"
    by (simp_all add: demo_defs py_float_eval)
  show ?thesis using h wdra_negative_amount_credits [OF h] by blast
qed

text \<open>
  C23: \<open>WDRA\<close> on a session that never named an account
  looks up \<open>self.accounts[None]\<close>: the \<open>KeyError\<close> ends the handler with no
  reply (the spec asks for a defined error response).
\<close>

theorem wdra_before_helo_crashes:
  assumes "current_user ss = None" "py_float x = Inr amt"
  shows "handle_parts [''WDRA'', x] srv ss = (Raised KeyError, [], srv, ss)"
  using assms by (simp add: handle_parts_def cmd_wdra_def wdra_locked_def)

theorem wdra_before_helo_crashes_witness:
  "current_user \<lparr>peer = 0, current_user = None\<rparr> = None \<and> py_float ''40'' = Inr (Fin 40) \<and>
   handle_parts [''WDRA'', ''40''] demo_srv \<lparr>peer = 0, current_user = None\<rparr> =
     (Raised KeyError, [], demo_srv, \<lparr>peer = 0, current_user = None\<rparr>)"
proof -
  have h: "current_user \<lparr>peer = 0, current_user = None\<rparr> = None" "py_float ''40'' = Inr (Fin 40)"
    by (simp_all add: py_float_eval)
  show ?thesis using h wdra_before_helo_crashes [OF h] by simp
qed

text \<open>
  C14: \<open>PASS\<close> changes neither the session nor the ledger nor
  the file, whatever its outcome: the code has no authenticated phase, so the
  spec's \<open>PASSWORD_PENDING \<rightarrow> AUTHENTICATED\<close> transition does not exist.
\<close>

theorem pass_changes_nothing:
  assumes "handle_parts (''PASS'' # args) srv ss = (fl, out, srv', ss')"
  shows "ss' = ss \<and> accounts srv' = accounts srv \<and> disk srv' = disk srv"
  using assms cmd_pass_frame [of "''PASS'' # args" srv ss] by (simp add: handle_parts_def)

theorem pass_changes_nothing_witness:
  "handle_parts [''PASS'', ''secret''] demo_srv alice_ss =
     (Continue, [OK], log_ev 0 (LoginSuccess ''alice'') demo_srv, alice_ss) \<and>
   alice_ss = alice_ss \<and> accounts (log_ev 0 (LoginSuccess ''alice'') demo_srv) = accounts demo_srv \<and>
   disk (log_ev 0 (LoginSuccess ''alice'') demo_srv) = disk demo_srv"
proof -
  have h: "handle_parts [''PASS'', ''secret''] demo_srv alice_ss =
     (Continue, [OK], log_ev 0 (LoginSuccess ''alice'') demo_srv, alice_ss)"
    by (simp add: handle_parts_def cmd_pass_def demo_defs)
  show ?thesis using h pass_changes_nothing [OF h] by simp
qed

text \<open>
  C5: after \<open>HELO u\<close> for an existing account, \<open>BALA\<close>
  replies with that account's balance, in any session and with no \<open>PASS\<close>:
  authentication does not precede privileged operations, and a session bound
  to one account is rebound to another by \<open>HELO\<close> alone.
\<close>

theorem balance_without_password:
  assumes "accounts srv u = Some a" "u \<noteq> []"
    "handle_parts [''HELO'', u] srv ss = (fl, out, srv1, ss1)"
  shows "fl = Continue \<and> out = [AUTH_REQUIRE] \<and>
    fst (snd (handle_parts [''BALA''] srv1 ss1)) = [AMNT (balance a)]"
  using assms by (auto simp: handle_parts_def cmd_helo_def cmd_bala_def split: if_splits)

theorem balance_without_password_witness:
  "accounts demo_srv ''alice'' = Some alice_acct \<and> ''alice'' \<noteq> [] \<and>
   fst (snd (handle_parts [''BALA''] (log_ev 0 (AuthRequired ''alice'') demo_srv) alice_ss)) =
     [AMNT (PyFloat (Fin 100))]"
proof -
  have h: "accounts demo_srv ''alice'' = Some alice_acct" "''alice'' \<noteq> []"
    "handle_parts [''HELO'', ''alice''] demo_srv \<lparr>peer = 0, current_user = None\<rparr> =
       (Continue, [AUTH_REQUIRE], log_ev 0 (AuthRequired ''alice'') demo_srv, alice_ss)"
    by (simp_all add: handle_parts_def cmd_helo_def demo_defs)
  show ?thesis using balance_without_password [OF h] h(1,2) by (simp add: alice_acct_def)
qed

text \<open>
  C17: over any run of a handler, from any ledger without
  negative balances: no balance becomes negative (\<open>balance < 0\<close> never holds),
  the session stays bound only to existing accounts, and the account ids,
  the passwords and the file-system mode never change.
\<close>

theorem handle_client_invariant:
  assumes "no_negative (accounts srv)"
  shows "case handle_client evs srv p of (en, out, srv', ss') \<Rightarrow>
    no_negative (accounts srv') \<and> session_ok srv' ss' \<and> dom (accounts srv') = dom (accounts srv) \<and>
    passwords (accounts srv') = passwords (accounts srv)"
  using serve_handle_client_inv [OF assms, of evs p]
  by (auto simp: ledger_frame_def split: prod.splits)

theorem handle_client_invariant_witness:
  "no_negative (accounts demo_srv) \<and>
   (case handle_client [Recv ''HELO alice'', Recv ''WDRA 40''] demo_srv 0 of (en, out, srv', ss') \<Rightarrow>
    no_negative (accounts srv') \<and> session_ok srv' ss' \<and> dom (accounts srv') = dom (accounts demo_srv) \<and>
    passwords (accounts srv') = passwords (accounts demo_srv))"
proof -
  have h: "no_negative (accounts demo_srv)"
    by (simp add: no_negative_def demo_defs py_negative_def float_lt_def)
  show ?thesis using h handle_client_invariant [OF h] by simp
qed

text \<open>
  C18: if the file held the ledger when the handler started,
  then at every point where the handler stops without an \<open>OSError\<close> the file
  decodes to the ledger in memory: every debit confirmed to a client has been
  written (the spec's persistence contract, section 4.1).
\<close>

theorem handle_client_synced:
  assumes "load_accounts (disk srv) = Inr (accounts srv)"
    "handle_client evs srv p = (en, out, srv', ss')" "en \<noteq> Crashed OSError"
  shows "load_accounts (disk srv') = Inr (accounts srv')"
  using serve_synced [OF assms(2) [unfolded handle_client_def]] assms(1,3)
  by (simp add: synced_def)

theorem handle_client_synced_witness:
  "load_accounts (disk demo_srv) = Inr (accounts demo_srv) \<and>
   fst (handle_client [Recv ''HELO alice'', Recv ''WDRA 40''] demo_srv 0) = Blocked \<and>
   load_accounts (disk (fst (snd (snd (handle_client [Recv ''HELO alice'', Recv ''WDRA 40''] demo_srv 0))))) =
     Inr (accounts (fst (snd (snd (handle_client [Recv ''HELO alice'', Recv ''WDRA 40''] demo_srv 0)))))"
proof -
  have h: "load_accounts (disk demo_srv) = Inr (accounts demo_srv)" by (simp add: demo_srv_def)
  have b: "fst (handle_client [Recv ''HELO alice'', Recv ''WDRA 40''] demo_srv 0) = Blocked"
    unfolding demo_defs by code_simp
  obtain en out srv' ss' where
    r: "handle_client [Recv ''HELO alice'', Recv ''WDRA 40''] demo_srv 0 = (en, out, srv', ss')"
    by (cases "handle_client [Recv ''HELO alice'', Recv ''WDRA 40''] demo_srv 0") auto
  with b have "en \<noteq> Crashed OSError" by simp
  from handle_client_synced [OF h r this] r b h show ?thesis by simp
qed

text \<open>
  C19: when \<open>json.dump\<close> fails after \<open>open(..., 'w')\<close>
  truncated the file, the debit stays in memory, the handler dies with
  \<open>OSError\<close> and no reply, and the file no longer loads: the next start of the
  server fails with \<open>JSONDecodeError\<close>.  The spec asks for a reported
  persistence failure and a ledger that cannot diverge from memory.
\<close>

theorem save_failure_desyncs:
  assumes "current_user ss = Some u" "accounts srv u = Some a" "py_float x = Inr amt"
    "py_ge (balance a) amt" "fs srv = FsWriteFails"
  shows "\<exists>srv'. handle_parts [''WDRA'', x] srv ss = (Raised OSError, [], srv', ss) \<and>
    accounts srv' = debit (accounts srv) u amt \<and> load_accounts (disk srv') = Inl JSONDecodeError"
  using assms by (simp add: handle_parts_def cmd_wdra_def wdra_locked_def Let_def)

theorem save_failure_desyncs_witness:
  "current_user alice_ss = Some ''alice'' \<and> accounts (demo_srv\<lparr>fs := FsWriteFails\<rparr>) ''alice'' = Some alice_acct \<and>
   py_float ''40'' = Inr (Fin 40) \<and> py_ge (balance alice_acct) (Fin 40) \<and>
   fs (demo_srv\<lparr>fs := FsWriteFails\<rparr>) = FsWriteFails \<and>
   (\<exists>srv'. handle_parts [''WDRA'', ''40''] (demo_srv\<lparr>fs := FsWriteFails\<rparr>) alice_ss =
      (Raised OSError, [], srv', alice_ss) \<and>
    accounts srv' = debit (accounts (demo_srv\<lparr>fs := FsWriteFails\<rparr>)) ''alice'' (Fin 40) \<and>
    load_accounts (disk srv') = Inl JSONDecodeError)"
proof -
  have h: "current_user alice_ss = Some ''alice''"
    "accounts (demo_srv\<lparr>fs := FsWriteFails\<rparr>) ''alice'' = Some alice_acct"
    "py_float ''40'' = Inr (Fin 40)" "py_ge (balance alice_acct) (Fin 40)"
    "fs (demo_srv\<lparr>fs := FsWriteFails\<rparr>) = FsWriteFails"
    by (simp_all add: demo_defs py_float_eval py_ge_def)
  show ?thesis using h save_failure_desyncs [OF h] by blast
qed

text \<open>
  C24: one turn of the loop sends at most one message, and
  every message sent is one of the spec's vocabulary (section 6).  It may send
  none: for an unknown command, for \<open>BALA\<close> before \<open>HELO\<close>, and on an exception.
\<close>

theorem handle_event_replies:
  "case handle_event ev srv ss of (fl, out, srv', ss') \<Rightarrow> length out \<le> 1 \<and> list_all is_reply out"
proof (cases "handle_event ev srv ss")
  case (fields fl out srv' ss')
  then have "length out \<le> 1 \<and> list_all is_reply out"
    using handle_event_cases [OF fields] cmd_replies by (cases ev) (auto simp: Let_def split: if_splits)
  with fields show ?thesis by simp
qed

text \<open>
  C25: a handler that has received \<open>n\<close> chunks has sent at most \<open>n\<close>
  messages and appended at most \<open>n\<close> lines to the audit log.
\<close>

theorem serve_bounds:
  "serve evs srv ss = (en, out, srv', ss') \<Longrightarrow>
     length out \<le> length evs \<and> length (log srv') \<le> length (log srv) + length evs"
proof (induction evs arbitrary: srv ss en out)
  case Nil
  then show ?case by simp
next
  case (Cons ev evs)
  obtain fl o1 s1 ss1 where ev: "handle_event ev srv ss = (fl, o1, s1, ss1)"
    by (cases "handle_event ev srv ss") auto
  note b = handle_event_bound [OF ev]
  show ?case
  proof (cases fl)
    case Continue
    with Cons.prems ev obtain o2 where r: "serve evs s1 ss1 = (en, o2, srv', ss')" and "out = o1 @ o2"
      by (auto split: prod.splits)
    with Cons.IH [OF r] b show ?thesis by simp
  qed (use Cons.prems ev b in auto)
qed

theorem serve_bounds_witness:
  "fst (snd (serve [Recv ''HELO alice'', Recv ''BALA''] demo_srv \<lparr>peer = 0, current_user = None\<rparr>)) =
     [AUTH_REQUIRE, AMNT (PyFloat (Fin 100))] \<and>
   length (log (fst (snd (snd (serve [Recv ''HELO alice'', Recv ''BALA''] demo_srv
     \<lparr>peer = 0, current_user = None\<rparr>))))) = 2 \<and>
   length (fst (snd (serve [Recv ''HELO alice'', Recv ''BALA''] demo_srv \<lparr>peer = 0, current_user = None\<rparr>)))
     \<le> length [Recv ''HELO alice'', Recv ''BALA''] \<and>
   length (log (fst (snd (snd (serve [Recv ''HELO alice'', Recv ''BALA''] demo_srv
     \<lparr>peer = 0, current_user = None\<rparr>))))) \<le> length (log demo_srv) + length [Recv ''HELO alice'', Recv ''BALA'']"
proof -
  define r where "r = serve [Recv ''HELO alice'', Recv ''BALA''] demo_srv \<lparr>peer = 0, current_user = None\<rparr>"
  have e: "serve [Recv ''HELO alice'', Recv ''BALA''] demo_srv \<lparr>peer = 0, current_user = None\<rparr> =
      (fst r, fst (snd r), fst (snd (snd r)), snd (snd (snd r)))" by (simp add: r_def)
  have c1: "fst (snd r) = [AUTH_REQUIRE, AMNT (PyFloat (Fin 100))]" unfolding r_def demo_defs by code_simp
  have c2: "length (log (fst (snd (snd r)))) = 2" unfolding r_def demo_defs by code_simp
  from c1 c2 serve_bounds [OF e] show ?thesis by (simp add: r_def)
qed

text \<open>
  C26: once the peer closes the connection (\<open>recv\<close> returns
  \<open>b''\<close>), the loop of \<open>handle_client\<close> ends: whatever the earlier chunks
  were and whatever would follow, the handler is not left waiting in \<open>recv\<close>.
\<close>

theorem serve_terminates: "fst (serve (evs @ Recv [] # rest) srv ss) \<noteq> Blocked"
proof (induction evs arbitrary: srv ss)
  case Nil
  then show ?case by (simp add: py_strip_def)
next
  case (Cons ev evs)
  obtain fl o1 s1 ss1 where ev: "handle_event ev srv ss = (fl, o1, s1, ss1)"
    by (cases "handle_event ev srv ss") auto
  show ?case
    using Cons.IH [of s1 ss1] ev by (cases fl) (auto split: prod.splits)
qed

end
