(* ===== verification/Concurrency.thy ===== *)
theory Concurrency
  imports Server
begin

text \<open>
  The server runs one \<open>handle_client\<close> thread per accepted connection
  (\<open>BankServer.start\<close>, src/code/server.py lines 86--93), all over the one
  \<open>self.accounts\<close> dict, the one ledger file and the one \<open>self.lock\<close>.  This
  theory models their interleaving as a step relation \<open>cstep\<close> on a system
  state \<open>sys\<close>: the shared server, the holder of the lock, and per thread its
  session, the chunks its peer has still to send, what it has sent, and where
  it is.  A command other than a \<open>WDRA\<close> that reaches the lock only reads the
  ledger (proved below), so it is one atomic step: \<open>handle_event\<close> of
  \<open>Server\<close>.  A \<open>WDRA\<close> that reaches \<open>with self.lock:\<close> is split at the
  points where another thread can run between its reads and writes of the
  shared state: taking the lock; the check \<open>balance >= amount\<close>; the read of
  \<open>balance\<close> in \<open>-=\<close>; the store of the difference; the save, reply, log and
  release.
\<close>

section \<open>State\<close>

text \<open>Where a thread is; \<open>Locked\<close> to \<open>Stored\<close> are inside \<open>with self.lock:\<close>.\<close>

datatype phase =
    Idle
  | Locked pyfloat
  | Checked pystr pyfloat
  | Loaded pystr pyfloat pynum
  | Stored pystr pyfloat
  | Done ending

record thread =
  sess :: session
  inbox :: "recv_event list"
  sent :: "pystr list"
  phase :: phase

record sys =
  shared :: server
  holder :: "nat option"
  thr :: "nat \<Rightarrow> thread option"

fun in_lock :: "phase \<Rightarrow> bool" where
  "in_lock (Locked _) = True"
| "in_lock (Checked _ _) = True"
| "in_lock (Loaded _ _ _) = True"
| "in_lock (Stored _ _) = True"
| "in_lock _ = False"

section \<open>Steps\<close>

text \<open>
  The amount of a chunk that reaches \<open>with self.lock:\<close>: a \<open>WDRA\<close> whose
  second word \<open>float()\<close> accepts.  Any other chunk runs without the lock.
\<close>

definition wdra_amount :: "recv_event \<Rightarrow> pyfloat option" where
  "wdra_amount ev =
     (case ev of
        Undecodable \<Rightarrow> None
      | Recv raw \<Rightarrow>
          (case py_split (py_strip raw) of
             c # arg # _ \<Rightarrow>
               if c = ''WDRA'' then (case py_float arg of Inr amt \<Rightarrow> Some amt | Inl _ \<Rightarrow> None)
               else None
           | _ \<Rightarrow> None))"

definition set_thr :: "nat \<Rightarrow> thread \<Rightarrow> sys \<Rightarrow> sys" where
  "set_thr t th s = s\<lparr>thr := (thr s)(t \<mapsto> th)\<rparr>"

definition new_thread :: "nat \<Rightarrow> recv_event list \<Rightarrow> thread" where
  "new_thread t evs = \<lparr>sess = \<lparr>peer = t, current_user = None\<rparr>, inbox = evs, sent = [], phase = Idle\<rparr>"

fun after :: "flow \<Rightarrow> phase" where
  "after Continue = Idle"
| "after Break = Done Closed"
| "after (Raised e) = Done (Crashed e)"

text \<open>One turn of the loop of thread \<open>t\<close> without the lock.\<close>

definition run_event :: "nat \<Rightarrow> thread \<Rightarrow> recv_event \<Rightarrow> recv_event list \<Rightarrow> sys \<Rightarrow> sys" where
  "run_event t th ev evs s =
     (case handle_event ev (shared s) (sess th) of
        (fl, out, srv', ss') \<Rightarrow>
          set_thr t (th\<lparr>sess := ss', inbox := evs, sent := sent th @ out, phase := after fl\<rparr>)
            (s\<lparr>shared := srv'\<rparr>))"

text \<open>Leaving \<open>with self.lock:\<close> by an exception: the lock is released.\<close>

definition crash_in_lock :: "nat \<Rightarrow> thread \<Rightarrow> py_error \<Rightarrow> sys \<Rightarrow> sys" where
  "crash_in_lock t th e s = set_thr t (th\<lparr>phase := Done (Crashed e)\<rparr>) (s\<lparr>holder := None\<rparr>)"

text \<open>\<open>if self.accounts[current_user]['balance'] >= amount\<close> (line 70).\<close>

definition do_check :: "nat \<Rightarrow> thread \<Rightarrow> pyfloat \<Rightarrow> sys \<Rightarrow> sys" where
  "do_check t th amt s =
     (case current_user (sess th) of
        None \<Rightarrow> crash_in_lock t th KeyError s
      | Some u \<Rightarrow>
          (case accounts (shared s) u of
             None \<Rightarrow> crash_in_lock t th KeyError s
           | Some a \<Rightarrow>
               if py_ge (balance a) amt then set_thr t (th\<lparr>phase := Checked u amt\<rparr>) s
               else set_thr t (th\<lparr>sent := sent th @ [ERROR], phase := Idle\<rparr>) (s\<lparr>holder := None\<rparr>)))"

text \<open>The read of \<open>self.accounts[current_user]['balance']\<close> in \<open>-=\<close> (line 71).\<close>

definition do_load :: "nat \<Rightarrow> thread \<Rightarrow> pystr \<Rightarrow> pyfloat \<Rightarrow> sys \<Rightarrow> sys" where
  "do_load t th u amt s =
     (case accounts (shared s) u of
        None \<Rightarrow> crash_in_lock t th KeyError s
      | Some a \<Rightarrow> set_thr t (th\<lparr>phase := Loaded u amt (balance a)\<rparr>) s)"

text \<open>The store of the difference into the account's dict (line 71).\<close>

definition do_store :: "nat \<Rightarrow> thread \<Rightarrow> pystr \<Rightarrow> pyfloat \<Rightarrow> pynum \<Rightarrow> sys \<Rightarrow> sys" where
  "do_store t th u amt b s =
     (case accounts (shared s) u of
        None \<Rightarrow> crash_in_lock t th KeyError s
      | Some a \<Rightarrow>
          set_thr t (th\<lparr>phase := Stored u amt\<rparr>)
            (s\<lparr>shared := shared s\<lparr>accounts := (accounts (shared s))(u \<mapsto> a\<lparr>balance := py_sub b amt\<rparr>)\<rparr>\<rparr>))"

text \<open>\<open>self.save_accounts()\<close>, the reply, the log line and the release (lines 72--74).\<close>

definition do_save :: "nat \<Rightarrow> thread \<Rightarrow> pystr \<Rightarrow> pyfloat \<Rightarrow> sys \<Rightarrow> sys" where
  "do_save t th u amt s =
     (case save_accounts (fs (shared s)) (accounts (shared s)) (disk (shared s)) of
        (Inl e, f) \<Rightarrow> crash_in_lock t th e (s\<lparr>shared := shared s\<lparr>disk := f\<rparr>\<rparr>)
      | (Inr _, f) \<Rightarrow>
          set_thr t (th\<lparr>sent := sent th @ [OK], phase := Idle\<rparr>)
            (s\<lparr>shared := log_ev (peer (sess th)) (WithdrawOk u amt) (shared s\<lparr>disk := f\<rparr>), holder := None\<rparr>))"

inductive cstep :: "sys \<Rightarrow> sys \<Rightarrow> bool" where
  accept: "thr s t = None \<Longrightarrow> cstep s (set_thr t (new_thread t evs) s)"
| atomic: "thr s t = Some th \<Longrightarrow> phase th = Idle \<Longrightarrow> inbox th = ev # evs \<Longrightarrow>
     wdra_amount ev = None \<Longrightarrow> cstep s (run_event t th ev evs s)"
| acquire: "thr s t = Some th \<Longrightarrow> phase th = Idle \<Longrightarrow> inbox th = ev # evs \<Longrightarrow>
     wdra_amount ev = Some amt \<Longrightarrow> holder s = None \<Longrightarrow>
     cstep s (set_thr t (th\<lparr>inbox := evs, phase := Locked amt\<rparr>) (s\<lparr>holder := Some t\<rparr>))"
| check: "thr s t = Some th \<Longrightarrow> phase th = Locked amt \<Longrightarrow> cstep s (do_check t th amt s)"
| load: "thr s t = Some th \<Longrightarrow> phase th = Checked u amt \<Longrightarrow> cstep s (do_load t th u amt s)"
| store: "thr s t = Some th \<Longrightarrow> phase th = Loaded u amt b \<Longrightarrow> cstep s (do_store t th u amt b s)"
| save: "thr s t = Some th \<Longrightarrow> phase th = Stored u amt \<Longrightarrow> cstep s (do_save t th u amt s)"

definition init_sys :: "server \<Rightarrow> sys" where
  "init_sys srv0 = \<lparr>shared = srv0, holder = None, thr = (\<lambda>_. None)\<rparr>"

inductive reach :: "server \<Rightarrow> sys \<Rightarrow> bool" for srv0 :: server where
  init: "reach srv0 (init_sys srv0)"
| step: "reach srv0 s \<Longrightarrow> cstep s s' \<Longrightarrow> reach srv0 s'"

section \<open>Invariant\<close>

text \<open>
  The lock is held exactly by the thread inside \<open>with self.lock:\<close>; a thread
  past the check still sees a balance that covers its amount, and a thread
  past the read still holds the current balance: no other thread has written
  in between.
\<close>

definition holder_ok :: "sys \<Rightarrow> bool" where
  "holder_ok s \<longleftrightarrow>
     (\<forall>t th. thr s t = Some th \<longrightarrow> in_lock (phase th) \<longrightarrow> holder s = Some t) \<and>
     (\<forall>t. holder s = Some t \<longrightarrow> (\<exists>th. thr s t = Some th \<and> in_lock (phase th)))"

definition phase_ok :: "ledger \<Rightarrow> phase \<Rightarrow> bool" where
  "phase_ok l p =
     (case p of
        Checked u amt \<Rightarrow> (\<exists>a. l u = Some a \<and> py_ge (balance a) amt)
      | Loaded u amt b \<Rightarrow> (\<exists>a. l u = Some a \<and> balance a = b \<and> py_ge b amt)
      | _ \<Rightarrow> True)"

definition conc_inv :: "sys \<Rightarrow> bool" where
  "conc_inv s \<longleftrightarrow>
     no_negative (accounts (shared s)) \<and> holder_ok s \<and>
     (\<forall>t th. thr s t = Some th \<longrightarrow> phase_ok (accounts (shared s)) (phase th))"

section \<open>Auxiliary definitions\<close>

text \<open>A run of the example server: thread 0 sends \<open>HELO alice\<close>, then takes the lock for \<open>WDRA 40\<close>.\<close>

definition demo_sys1 :: sys where
  "demo_sys1 = set_thr 0 (new_thread 0 [Recv ''HELO alice'', Recv ''WDRA 40'']) (init_sys demo_srv)"

definition demo_thread :: thread where
  "demo_thread = \<lparr>sess = \<lparr>peer = 0, current_user = Some ''alice''\<rparr>, inbox = [Recv ''WDRA 40''],
     sent = [AUTH_REQUIRE], phase = Idle\<rparr>"

definition demo_sys2 :: sys where
  "demo_sys2 = set_thr 0 demo_thread (demo_sys1\<lparr>shared := log_ev 0 (AuthRequired ''alice'') demo_srv\<rparr>)"

definition demo_sys3 :: sys where
  "demo_sys3 = set_thr 0 (demo_thread\<lparr>inbox := [], phase := Locked (Fin 40)\<rparr>) (demo_sys2\<lparr>holder := Some 0\<rparr>)"

text \<open>A log entry \<open>Withdraw ... OK\<close>, and the ledger the logged withdrawals produce.\<close>

definition is_wok :: "log_entry \<Rightarrow> bool" where
  "is_wok e \<longleftrightarrow> (case snd e of WithdrawOk _ _ \<Rightarrow> True | _ \<Rightarrow> False)"

fun replay :: "ledger \<Rightarrow> log_entry list \<Rightarrow> ledger" where
  "replay l [] = l"
| "replay l ((p, WithdrawOk u amt) # es) = replay (debit l u amt) es"
| "replay l (_ # es) = replay l es"

text \<open>The debit stored by the holder of the lock and not yet saved and logged.\<close>

definition pending :: "sys \<Rightarrow> (pystr \<times> pyfloat) option" where
  "pending s =
     (case holder s of
        None \<Rightarrow> None
      | Some t \<Rightarrow>
          (case thr s t of
             None \<Rightarrow> None
           | Some th \<Rightarrow> (case phase th of Stored u amt \<Rightarrow> Some (u, amt) | _ \<Rightarrow> None)))"

definition replay_inv :: "server \<Rightarrow> sys \<Rightarrow> bool" where
  "replay_inv srv0 s \<longleftrightarrow> fs (shared s) = fs srv0 \<and>
     (\<exists>new. log (shared s) = log srv0 @ new \<and>
        accounts (shared s) =
          (case pending s of
             None \<Rightarrow> replay (accounts srv0) new
           | Some (u, amt) \<Rightarrow> debit (replay (accounts srv0) new) u amt) \<and>
        (pending s = None \<longrightarrow> synced (shared s)))"

text \<open>A step that leaves the ledger, the file and the mode alone and logs no withdrawal.\<close>

definition readonly :: "server \<Rightarrow> server \<Rightarrow> bool" where
  "readonly srv srv' \<longleftrightarrow> accounts srv' = accounts srv \<and> disk srv' = disk srv \<and> fs srv' = fs srv \<and>
     (\<exists>new. log srv' = log srv @ new \<and> \<not> list_ex is_wok new)"


section \<open>Lemmas\<close>

lemma set_thr_simps [simp]:
  "shared (set_thr t th s) = shared s" "holder (set_thr t th s) = holder s"
  "thr (set_thr t th s) = (thr s)(t \<mapsto> th)"
  by (simp_all add: set_thr_def)

lemma in_lock_simps [simp]:
  "\<not> in_lock Idle" "\<not> in_lock (Done e)" "\<not> in_lock (after fl)"
  by (cases fl; simp)+

lemma readonly_refl [simp]: "readonly srv srv"
  by (auto simp: readonly_def)

lemma readonly_log_ev [simp]:
  "\<not> is_wok (p, e) \<Longrightarrow> readonly srv (log_ev p e srv)"
  by (auto simp: readonly_def log_ev_def)

lemma cmd_helo_readonly: "cmd_helo parts srv ss = (fl, out, srv', ss') \<Longrightarrow> readonly srv srv'"
  by (auto simp: cmd_helo_def is_wok_def split: sum.splits if_splits)

lemma cmd_pass_readonly: "cmd_pass parts srv ss = (fl, out, srv', ss') \<Longrightarrow> readonly srv srv'"
  by (auto simp: cmd_pass_def is_wok_def split: sum.splits if_splits option.splits)

lemma cmd_bala_readonly: "cmd_bala srv ss = (fl, out, srv', ss') \<Longrightarrow> readonly srv srv'"
  by (auto simp: cmd_bala_def is_wok_def split: sum.splits if_splits option.splits)

lemma cmd_bye_readonly: "cmd_bye srv ss = (fl, out, srv', ss') \<Longrightarrow> readonly srv srv'"
  by (auto simp: cmd_bye_def is_wok_def)

lemma handle_parts_not_wdra_readonly:
  assumes "handle_parts (c # rest) srv ss = (fl, out, srv', ss')" "c \<noteq> ''WDRA''"
  shows "readonly srv srv'"
  using assms cmd_helo_readonly cmd_pass_readonly cmd_bala_readonly cmd_bye_readonly
  by (auto simp: handle_parts_def split: if_splits)

lemma handle_event_readonly:
  assumes "wdra_amount ev = None" "handle_event ev srv ss = (fl, out, srv', ss')"
  shows "readonly srv srv'"
proof (cases ev)
  case Undecodable
  with assms show ?thesis by simp
next
  case (Recv raw)
  show ?thesis
  proof (cases "py_split (py_strip raw)")
    case Nil
    with assms Recv show ?thesis by (auto simp: Let_def handle_parts_def split: if_splits)
  next
    case (Cons c rest)
    show ?thesis
    proof (cases "c = ''WDRA''")
      case False
      with assms Recv Cons show ?thesis
        by (auto simp: Let_def split: if_splits intro: handle_parts_not_wdra_readonly)
    next
      case True
      with assms Recv Cons show ?thesis
        by (auto simp: Let_def wdra_amount_def handle_parts_def cmd_wdra_def
            split: if_splits list.splits sum.splits)
    qed
  qed
qed


lemma after_not_in_lock [simp]:
  "after fl \<noteq> Locked amt" "after fl \<noteq> Checked u amt" "after fl \<noteq> Loaded u amt b"
  "after fl \<noteq> Stored u amt"
  by (cases fl; simp)+

lemma phase_ok_not_in_lock [simp]: "\<not> in_lock p \<Longrightarrow> phase_ok l p"
  by (cases p) (simp_all add: phase_ok_def)

lemma phase_ok_simps [simp]:
  "phase_ok l Idle" "phase_ok l (Done e)" "phase_ok l (Locked amt)" "phase_ok l (Stored u amt)"
  by (simp_all add: phase_ok_def)

lemma holder_ok_unique:
  assumes "holder_ok s" "thr s t = Some th" "in_lock (phase th)"
    "thr s t' = Some th'" "in_lock (phase th')"
  shows "t' = t"
  using assms unfolding holder_ok_def by (metis option.inject)

lemma holder_ok_release:
  assumes "holder_ok s" "thr s t = Some th" "in_lock (phase th)" "\<not> in_lock (phase th')"
  shows "holder_ok (set_thr t th' (s\<lparr>holder := None\<rparr>))"
  unfolding holder_ok_def
proof (intro conjI allI impI)
  fix t'' th''
  assume a: "thr (set_thr t th' (s\<lparr>holder := None\<rparr>)) t'' = Some th''" "in_lock (phase th'')"
  show "holder (set_thr t th' (s\<lparr>holder := None\<rparr>)) = Some t''"
  proof (cases "t'' = t")
    case True
    with a assms(4) show ?thesis by simp
  next
    case False
    with a have "thr s t'' = Some th''" by simp
    from holder_ok_unique [OF assms(1-3) this a(2)] False show ?thesis by blast
  qed
qed simp

lemma holder_ok_stay:
  assumes "holder_ok s" "thr s t = Some th" "in_lock (phase th)" "in_lock (phase th')"
  shows "holder_ok (set_thr t th' s)"
  unfolding holder_ok_def
proof (intro conjI allI impI)
  fix t'' th''
  assume a: "thr (set_thr t th' s) t'' = Some th''" "in_lock (phase th'')"
  show "holder (set_thr t th' s) = Some t''"
  proof (cases "t'' = t")
    case True
    with assms(1-3) show ?thesis by (simp add: holder_ok_def)
  next
    case False
    with a have "thr s t'' = Some th''" by simp
    from holder_ok_unique [OF assms(1-3) this a(2)] False show ?thesis by blast
  qed
next
  fix t''
  assume "holder (set_thr t th' s) = Some t''"
  with assms(1-3) have "t'' = t" by (auto simp: holder_ok_def)
  with assms(4) show "\<exists>th. thr (set_thr t th' s) t'' = Some th \<and> in_lock (phase th)" by simp
qed

lemma set_thr_shared: "set_thr t th (s\<lparr>shared := x\<rparr>) = (set_thr t th s)\<lparr>shared := x\<rparr>"
  by (simp add: set_thr_def)

lemma holder_ok_shared [simp]: "holder_ok (s\<lparr>shared := x\<rparr>) = holder_ok s"
  by (simp add: holder_ok_def)

lemma holder_ok_idle:
  assumes "holder_ok s" "thr s t = Some th" "\<not> in_lock (phase th)" "\<not> in_lock (phase th')"
  shows "holder_ok (set_thr t th' s)"
  unfolding holder_ok_def
proof (intro conjI allI impI)
  fix t'' th''
  assume a: "thr (set_thr t th' s) t'' = Some th''" "in_lock (phase th'')"
  with assms(4) have "t'' \<noteq> t" by auto
  with a assms(1) show "holder (set_thr t th' s) = Some t''" by (auto simp: holder_ok_def)
next
  fix t''
  assume h: "holder (set_thr t th' s) = Some t''"
  with assms(1) obtain th'' where "thr s t'' = Some th''" "in_lock (phase th'')"
    by (auto simp: holder_ok_def)
  moreover with assms(2,3) have "t'' \<noteq> t" by auto
  ultimately show "\<exists>th. thr (set_thr t th' s) t'' = Some th \<and> in_lock (phase th)" by auto
qed

lemma holder_ok_acquire:
  assumes "holder_ok s" "holder s = None" "in_lock (phase th')"
  shows "holder_ok (set_thr t th' (s\<lparr>holder := Some t\<rparr>))"
  using assms unfolding holder_ok_def by (auto split: if_splits)

lemma conc_inv_phase:
  assumes "conc_inv s" "phase_ok (accounts (shared s)) (phase th')" "holder_ok (set_thr t th' s')"
    "shared s' = shared s" "thr s' = thr s"
  shows "conc_inv (set_thr t th' s')"
  using assms unfolding conc_inv_def by auto

lemma holder_ok_new:
  assumes "holder_ok s" "thr s t = None" "\<not> in_lock (phase th')"
  shows "holder_ok (set_thr t th' s)"
  unfolding holder_ok_def
proof (intro conjI allI impI)
  fix t'' th''
  assume a: "thr (set_thr t th' s) t'' = Some th''" "in_lock (phase th'')"
  with assms(3) have "t'' \<noteq> t" by auto
  with a assms(1) show "holder (set_thr t th' s) = Some t''" by (auto simp: holder_ok_def)
next
  fix t''
  assume h: "holder (set_thr t th' s) = Some t''"
  with assms(1) obtain th'' where "thr s t'' = Some th''" "in_lock (phase th'')"
    by (auto simp: holder_ok_def)
  moreover with assms(2) have "t'' \<noteq> t" by auto
  ultimately show "\<exists>th. thr (set_thr t th' s) t'' = Some th \<and> in_lock (phase th)" by auto
qed

text \<open>Only the holder of the lock can be past the check or the read.\<close>

lemma conc_inv_holder':
  "conc_inv s \<Longrightarrow> thr s t = Some th \<Longrightarrow> in_lock (phase th) \<Longrightarrow> holder s = Some t"
  by (auto simp: conc_inv_def holder_ok_def)

lemma conc_inv_others:
  assumes "conc_inv s" "thr s t = Some th" "in_lock (phase th)" "thr s t' = Some th'" "t' \<noteq> t"
  shows "\<not> in_lock (phase th')"
  using holder_ok_unique [of s t th t' th'] assms by (auto simp: conc_inv_def)

lemma conc_inv_accept:
  assumes "conc_inv s" "thr s t = None"
  shows "conc_inv (set_thr t (new_thread t evs) s)"
  using assms holder_ok_new [of s t "new_thread t evs"]
  by (auto simp: conc_inv_def new_thread_def)

lemma conc_inv_atomic:
  assumes "conc_inv s" "thr s t = Some th" "phase th = Idle" "wdra_amount ev = None"
  shows "conc_inv (run_event t th ev evs s)"
proof -
  obtain fl out srv' ss' where he: "handle_event ev (shared s) (sess th) = (fl, out, srv', ss')"
    by (cases "handle_event ev (shared s) (sess th)") auto
  from handle_event_readonly [OF assms(4) he] have acc: "accounts srv' = accounts (shared s)"
    by (simp add: readonly_def)
  let ?th' = "th\<lparr>sess := ss', inbox := evs, sent := sent th @ out, phase := after fl\<rparr>"
  have "holder_ok (set_thr t ?th' (s\<lparr>shared := srv'\<rparr>))"
    using assms(1-3) by (intro holder_ok_idle) (auto simp: conc_inv_def)
  with assms(1) acc show ?thesis
    by (auto simp: run_event_def he conc_inv_def)
qed

lemma conc_inv_acquire:
  assumes "conc_inv s" "holder s = None"
  shows "conc_inv (set_thr t (th\<lparr>inbox := evs, phase := Locked amt\<rparr>) (s\<lparr>holder := Some t\<rparr>))"
  using assms holder_ok_acquire [of s "th\<lparr>inbox := evs, phase := Locked amt\<rparr>" t]
  by (auto simp: conc_inv_def)

lemma conc_inv_crash_in_lock:
  assumes "conc_inv s" "thr s t = Some th" "in_lock (phase th)"
  shows "conc_inv (crash_in_lock t th e s)"
  using assms holder_ok_release [of s t th "th\<lparr>phase := Done (Crashed e)\<rparr>"]
  by (auto simp: conc_inv_def crash_in_lock_def)

lemma conc_inv_check:
  assumes "conc_inv s" "thr s t = Some th" "phase th = Locked amt"
  shows "conc_inv (do_check t th amt s)"
proof -
  have lk: "in_lock (phase th)" using assms(3) by simp
  have hok: "holder_ok s" using assms(1) by (simp add: conc_inv_def)
  show ?thesis
  proof (cases "current_user (sess th)")
    case None
    with conc_inv_crash_in_lock [OF assms(1,2) lk] show ?thesis by (simp add: do_check_def)
  next
    case (Some u)
    note cu = Some
    show ?thesis
    proof (cases "accounts (shared s) u")
      case None
      with cu conc_inv_crash_in_lock [OF assms(1,2) lk] show ?thesis by (simp add: do_check_def)
    next
      case (Some a)
      show ?thesis
      proof (cases "py_ge (balance a) amt")
        case True
        have "holder_ok (set_thr t (th\<lparr>phase := Checked u amt\<rparr>) s)"
          by (rule holder_ok_stay [OF hok assms(2) lk]) simp
        with assms(1) cu Some True show ?thesis
          by (auto simp: do_check_def conc_inv_def phase_ok_def)
      next
        case False
        have "holder_ok (set_thr t (th\<lparr>sent := sent th @ [ERROR], phase := Idle\<rparr>) (s\<lparr>holder := None\<rparr>))"
          by (rule holder_ok_release [OF hok assms(2) lk]) simp
        with assms(1) cu Some False show ?thesis
          by (auto simp: do_check_def conc_inv_def)
      qed
    qed
  qed
qed

lemma conc_inv_load:
  assumes "conc_inv s" "thr s t = Some th" "phase th = Checked u amt"
  shows "conc_inv (do_load t th u amt s)"
proof -
  have lk: "in_lock (phase th)" using assms(3) by simp
  have hok: "holder_ok s" using assms(1) by (simp add: conc_inv_def)
  from assms obtain a where a: "accounts (shared s) u = Some a" "py_ge (balance a) amt"
    by (fastforce simp: conc_inv_def phase_ok_def)
  have "holder_ok (set_thr t (th\<lparr>phase := Loaded u amt (balance a)\<rparr>) s)"
    by (rule holder_ok_stay [OF hok assms(2) lk]) simp
  with assms(1) a show ?thesis by (auto simp: do_load_def conc_inv_def phase_ok_def)
qed

lemma conc_inv_store:
  assumes "conc_inv s" "thr s t = Some th" "phase th = Loaded u amt b"
  shows "conc_inv (do_store t th u amt b s)"
proof -
  have lk: "in_lock (phase th)" using assms(3) by simp
  have hok: "holder_ok s" using assms(1) by (simp add: conc_inv_def)
  from assms obtain a where a: "accounts (shared s) u = Some a" "balance a = b" "py_ge b amt"
    by (fastforce simp: conc_inv_def phase_ok_def)
  let ?l = "(accounts (shared s))(u \<mapsto> a\<lparr>balance := py_sub b amt\<rparr>)"
  have nn: "no_negative ?l"
    using no_negative_debit [of "accounts (shared s)" u a amt] assms(1) a
    by (simp add: conc_inv_def debit_def)
  have "holder_ok (set_thr t (th\<lparr>phase := Stored u amt\<rparr>) s)"
    by (rule holder_ok_stay [OF hok assms(2) lk]) simp
  then have hs: "holder_ok (do_store t th u amt b s)"
    using a by (simp add: do_store_def set_thr_shared)
  have others: "\<forall>t' th'. thr s t' = Some th' \<longrightarrow> t' \<noteq> t \<longrightarrow> \<not> in_lock (phase th')"
    using conc_inv_others [OF assms(1,2) lk] by blast
  show ?thesis
    unfolding conc_inv_def
  proof (intro conjI allI impI)
    show "no_negative (accounts (shared (do_store t th u amt b s)))"
      using nn a by (simp add: do_store_def)
    show "holder_ok (do_store t th u amt b s)"
      by (rule hs)
  next
    fix t' th'
    assume h: "thr (do_store t th u amt b s) t' = Some th'"
    show "phase_ok (accounts (shared (do_store t th u amt b s))) (phase th')"
    proof (cases "t' = t")
      case True
      with h a show ?thesis by (auto simp: do_store_def)
    next
      case False
      with h a have "thr s t' = Some th'" by (simp add: do_store_def)
      with others False show ?thesis by simp
    qed
  qed
qed

lemma conc_inv_same_accounts:
  "conc_inv s \<Longrightarrow> accounts x = accounts (shared s) \<Longrightarrow> conc_inv (s\<lparr>shared := x\<rparr>)"
  by (simp add: conc_inv_def)

lemma conc_inv_save:
  assumes "conc_inv s" "thr s t = Some th" "phase th = Stored u amt"
  shows "conc_inv (do_save t th u amt s)"
proof -
  have lk: "in_lock (phase th)" using assms(3) by simp
  have hok: "holder_ok s" using assms(1) by (simp add: conc_inv_def)
  obtain r f where sv: "save_accounts (fs (shared s)) (accounts (shared s)) (disk (shared s)) = (r, f)"
    by (cases "save_accounts (fs (shared s)) (accounts (shared s)) (disk (shared s))") auto
  show ?thesis
  proof (cases r)
    case (Inl e)
    have "conc_inv (s\<lparr>shared := shared s\<lparr>disk := f\<rparr>\<rparr>)"
      using assms(1) by (rule conc_inv_same_accounts) simp
    from conc_inv_crash_in_lock [OF this _ lk, of t e] assms(2) show ?thesis
      unfolding do_save_def sv Inl by simp
  next
    case (Inr v)
    let ?th' = "th\<lparr>sent := sent th @ [OK], phase := Idle\<rparr>"
    have "holder_ok (set_thr t ?th' (s\<lparr>holder := None\<rparr>))"
      by (rule holder_ok_release [OF hok assms(2) lk]) simp
    moreover have "\<forall>t' th'. thr s t' = Some th' \<longrightarrow> t' \<noteq> t \<longrightarrow> \<not> in_lock (phase th')"
      using conc_inv_others [OF assms(1,2) lk] by blast
    ultimately have c1: "conc_inv (set_thr t ?th' (s\<lparr>holder := None\<rparr>))"
      using assms(1) by (auto simp: conc_inv_def)
    have eq: "do_save t th u amt s = (set_thr t ?th' (s\<lparr>holder := None\<rparr>))\<lparr>shared :=
        log_ev (peer (sess th)) (WithdrawOk u amt) (shared s\<lparr>disk := f\<rparr>)\<rparr>"
      unfolding do_save_def sv Inr by (simp add: set_thr_def)
    show ?thesis unfolding eq by (rule conc_inv_same_accounts [OF c1]) simp
  qed
qed

lemma cstep_conc_inv: "cstep s s' \<Longrightarrow> conc_inv s \<Longrightarrow> conc_inv s'"
proof (induction rule: cstep.induct)
  case (accept s t evs)
  then show ?case by (simp add: conc_inv_accept)
next
  case (atomic s t th ev evs)
  then show ?case by (intro conc_inv_atomic) auto
next
  case (acquire s t th ev evs amt)
  then show ?case by (intro conc_inv_acquire) auto
next
  case (check s t th amt)
  then show ?case by (intro conc_inv_check) auto
next
  case (load s t th u amt)
  then show ?case by (intro conc_inv_load) auto
next
  case (store s t th u amt b)
  then show ?case by (intro conc_inv_store) auto
next
  case (save s t th u amt)
  then show ?case by (intro conc_inv_save) auto
qed

lemma reach_conc_inv:
  assumes "reach srv0 s" "no_negative (accounts srv0)"
  shows "conc_inv s"
  using assms(1)
proof (induction rule: reach.induct)
  case init
  with assms(2) show ?case by (simp add: conc_inv_def init_sys_def holder_ok_def)
next
  case (step s s')
  then show ?case by (blast intro: cstep_conc_inv)
qed

lemma replay_append [simp]: "replay l (xs @ ys) = replay (replay l xs) ys"
  by (induction l xs rule: replay.induct) auto

lemma replay_no_wok: "\<not> list_ex is_wok es \<Longrightarrow> replay l es = l"
  by (induction l es rule: replay.induct) (auto simp: is_wok_def)

lemma pending_other:
  "holder s \<noteq> Some t \<Longrightarrow> pending (set_thr t th' s) = pending s"
  by (auto simp: pending_def split: option.splits)

lemma pending_shared [simp]: "pending (s\<lparr>shared := x\<rparr>) = pending s"
  by (cases "holder s") (simp_all add: pending_def)

lemma pending_released [simp]: "pending (set_thr t th' (s\<lparr>holder := None\<rparr>)) = None"
  by (simp add: pending_def)

lemma pending_holder:
  "holder s = Some t \<Longrightarrow> pending (set_thr t th' s) =
     (case phase th' of Stored u amt \<Rightarrow> Some (u, amt) | _ \<Rightarrow> None)"
  by (simp add: pending_def)

lemma pending_in_lock:
  "conc_inv s \<Longrightarrow> thr s t = Some th \<Longrightarrow> in_lock (phase th) \<Longrightarrow>
   pending s = (case phase th of Stored u amt \<Rightarrow> Some (u, amt) | _ \<Rightarrow> None)"
  using conc_inv_holder' [of s t th] by (simp add: pending_def)

lemma replay_inv_same:
  "replay_inv srv0 s \<Longrightarrow> shared s' = shared s \<Longrightarrow> pending s' = pending s \<Longrightarrow> replay_inv srv0 s'"
  by (simp add: replay_inv_def)

lemma replay_inv_readonly:
  assumes "replay_inv srv0 s" "readonly (shared s) (shared s')" "pending s' = pending s"
  shows "replay_inv srv0 s'"
proof -
  from assms(2) obtain extra where ro: "accounts (shared s') = accounts (shared s)"
    "disk (shared s') = disk (shared s)" "fs (shared s') = fs (shared s)"
    "log (shared s') = log (shared s) @ extra" "\<not> list_ex is_wok extra"
    by (auto simp: readonly_def)
  from assms(1) obtain new where inv: "fs (shared s) = fs srv0" "log (shared s) = log srv0 @ new"
    "accounts (shared s) = (case pending s of None \<Rightarrow> replay (accounts srv0) new
        | Some (u, amt) \<Rightarrow> debit (replay (accounts srv0) new) u amt)"
    "pending s = None \<longrightarrow> synced (shared s)"
    by (auto simp: replay_inv_def)
  have r: "replay (accounts srv0) (new @ extra) = replay (accounts srv0) new"
    using replay_no_wok [OF ro(5)] by simp
  show ?thesis
    unfolding replay_inv_def
  proof (intro conjI exI [of _ "new @ extra"])
    show "fs (shared s') = fs srv0" using ro(3) inv(1) by simp
    show "log (shared s') = log srv0 @ new @ extra" using ro(4) inv(2) by simp
    show "accounts (shared s') = (case pending s' of None \<Rightarrow> replay (accounts srv0) (new @ extra)
        | Some (u, amt) \<Rightarrow> debit (replay (accounts srv0) (new @ extra)) u amt)"
      unfolding r using ro(1) inv(3) assms(3) by simp
    show "pending s' = None \<longrightarrow> synced (shared s')"
      using inv(4) assms(3) ro(1,2) by (simp add: synced_def)
  qed
qed

lemma holder_ok_holder:
  "holder_ok s \<Longrightarrow> holder s = Some t \<Longrightarrow> \<exists>th. thr s t = Some th \<and> in_lock (phase th)"
  by (simp add: holder_ok_def)

lemma not_holder_idle:
  assumes "conc_inv s" "thr s t = Some th" "\<not> in_lock (phase th)"
  shows "holder s \<noteq> Some t"
proof
  assume "holder s = Some t"
  with assms(1) obtain th' where "thr s t = Some th'" "in_lock (phase th')"
    using holder_ok_holder by (fastforce simp: conc_inv_def)
  with assms(2,3) show False by simp
qed

lemma not_holder_new:
  assumes "conc_inv s" "thr s t = None"
  shows "holder s \<noteq> Some t"
proof
  assume "holder s = Some t"
  with assms(1) obtain th' where "thr s t = Some th'"
    using holder_ok_holder by (fastforce simp: conc_inv_def)
  with assms(2) show False by simp
qed

lemma do_check_effect:
  assumes "holder s = Some t"
  shows "shared (do_check t th amt s) = shared s \<and> pending (do_check t th amt s) = None"
  using assms
  by (auto simp: do_check_def crash_in_lock_def pending_holder split: option.splits)

lemma do_load_effect:
  assumes "holder s = Some t"
  shows "shared (do_load t th u amt s) = shared s \<and> pending (do_load t th u amt s) = None"
  using assms
  by (auto simp: do_load_def crash_in_lock_def pending_holder split: option.splits)

lemma replay_inv_store:
  assumes "conc_inv s" "replay_inv srv0 s" "thr s t = Some th" "phase th = Loaded u amt b"
  shows "replay_inv srv0 (do_store t th u amt b s)"
proof -
  have lk: "in_lock (phase th)" using assms(4) by simp
  have hold: "holder s = Some t" using conc_inv_holder' [OF assms(1,3) lk] .
  have pn: "pending s = None" using pending_in_lock [OF assms(1,3) lk] assms(4) by simp
  from assms(1,3,4) obtain a where a: "accounts (shared s) u = Some a" "balance a = b"
    by (fastforce simp: conc_inv_def phase_ok_def)
  from assms(2) pn obtain new where inv: "fs (shared s) = fs srv0" "log (shared s) = log srv0 @ new"
    "accounts (shared s) = replay (accounts srv0) new"
    by (auto simp: replay_inv_def)
  have "pending (do_store t th u amt b s) = Some (u, amt)"
    using hold a by (simp add: do_store_def set_thr_shared pending_holder)
  moreover have "accounts (shared (do_store t th u amt b s)) = debit (replay (accounts srv0) new) u amt"
    using a inv(3) by (simp add: do_store_def debit_def)
  ultimately show ?thesis
    using inv a unfolding replay_inv_def by (auto simp: do_store_def)
qed

lemma replay_inv_save:
  assumes "conc_inv s" "replay_inv srv0 s" "thr s t = Some th" "phase th = Stored u amt"
    "fs srv0 = FsOk"
  shows "replay_inv srv0 (do_save t th u amt s)"
proof -
  have lk: "in_lock (phase th)" using assms(4) by simp
  have pn: "pending s = Some (u, amt)" using pending_in_lock [OF assms(1,3) lk] assms(4) by simp
  from assms(2) pn obtain new where inv: "fs (shared s) = fs srv0" "log (shared s) = log srv0 @ new"
    "accounts (shared s) = debit (replay (accounts srv0) new) u amt"
    by (auto simp: replay_inv_def)
  let ?e = "(peer (sess th), WithdrawOk u amt)"
  have eq: "do_save t th u amt s =
    (set_thr t (th\<lparr>sent := sent th @ [OK], phase := Idle\<rparr>) (s\<lparr>holder := None\<rparr>))\<lparr>shared :=
       log_ev (peer (sess th)) (WithdrawOk u amt) (shared s\<lparr>disk := Json (accounts (shared s))\<rparr>)\<rparr>"
    using inv(1) assms(5) by (simp add: do_save_def set_thr_def)
  show ?thesis
    unfolding eq replay_inv_def
  proof (intro conjI exI [of _ "new @ [?e]"])
    show "fs (shared ((set_thr t (th\<lparr>sent := sent th @ [OK], phase := Idle\<rparr>) (s\<lparr>holder := None\<rparr>))\<lparr>shared :=
       log_ev (peer (sess th)) (WithdrawOk u amt) (shared s\<lparr>disk := Json (accounts (shared s))\<rparr>)\<rparr>)) = fs srv0"
      using inv(1) by simp
  qed (use inv in \<open>simp_all add: synced_def\<close>)
qed

lemma cstep_replay_inv:
  "cstep s s' \<Longrightarrow> conc_inv s \<Longrightarrow> replay_inv srv0 s \<Longrightarrow> fs srv0 = FsOk \<Longrightarrow> replay_inv srv0 s'"
proof (induction rule: cstep.induct)
  case (accept s t evs)
  then show ?case
    by (intro replay_inv_same [OF accept.prems(2)]) (simp_all add: pending_other not_holder_new)
next
  case (atomic s t th ev evs)
  obtain fl out srv' ss' where he: "handle_event ev (shared s) (sess th) = (fl, out, srv', ss')"
    by (cases "handle_event ev (shared s) (sess th)") auto
  have nh: "holder s \<noteq> Some t" using not_holder_idle [OF atomic.prems(1) atomic.hyps(1)] atomic.hyps(2) by simp
  show ?case
  proof (rule replay_inv_readonly [OF atomic.prems(2)])
    show "readonly (shared s) (shared (run_event t th ev evs s))"
      using handle_event_readonly [OF atomic.hyps(4) he] by (simp add: run_event_def he)
    show "pending (run_event t th ev evs s) = pending s"
      using nh by (simp add: run_event_def he set_thr_shared pending_other)
  qed
next
  case (acquire s t th ev evs amt)
  then show ?case
    by (intro replay_inv_same [OF acquire.prems(2)]) (simp_all add: pending_holder pending_def)
next
  case (check s t th amt)
  have "holder s = Some t" using conc_inv_holder' [OF check.prems(1) check.hyps(1)] check.hyps(2) by simp
  from do_check_effect [OF this] pending_in_lock [OF check.prems(1) check.hyps(1)] check.hyps(2)
  show ?case by (intro replay_inv_same [OF check.prems(2)]) simp_all
next
  case (load s t th u amt)
  have "holder s = Some t" using conc_inv_holder' [OF load.prems(1) load.hyps(1)] load.hyps(2) by simp
  from do_load_effect [OF this] pending_in_lock [OF load.prems(1) load.hyps(1)] load.hyps(2)
  show ?case by (intro replay_inv_same [OF load.prems(2)]) simp_all
next
  case (store s t th u amt b)
  then show ?case by (intro replay_inv_store) auto
next
  case (save s t th u amt)
  then show ?case by (intro replay_inv_save) auto
qed

lemma reach_replay_inv:
  assumes "reach srv0 s" "no_negative (accounts srv0)" "fs srv0 = FsOk" "synced srv0"
  shows "replay_inv srv0 s"
  using assms(1)
proof (induction rule: reach.induct)
  case init
  with assms(4) show ?case
    by (auto simp: replay_inv_def init_sys_def pending_def intro: exI [of _ "[]"])
next
  case (step s s')
  with reach_conc_inv [OF step.hyps(1) assms(2)] assms(3) show ?case
    by (blast intro: cstep_replay_inv)
qed

lemma demo_reach2: "reach demo_srv demo_sys2"
proof -
  have r1: "reach demo_srv demo_sys1"
    unfolding demo_sys1_def by (rule reach.step [OF reach.init cstep.accept]) (simp add: init_sys_def)
  have e2: "run_event 0 (new_thread 0 [Recv ''HELO alice'', Recv ''WDRA 40'']) (Recv ''HELO alice'')
      [Recv ''WDRA 40''] demo_sys1 = demo_sys2"
    by (simp add: run_event_def demo_sys2_def demo_sys1_def demo_thread_def new_thread_def
        init_sys_def handle_parts_def cmd_helo_def demo_defs py_split_def py_strip_def py_isspace_def
        set_thr_def)
  have w2: "wdra_amount (Recv ''HELO alice'') = None"
    by (simp add: wdra_amount_def py_split_def py_strip_def py_isspace_def)
  have r2: "reach demo_srv demo_sys2"
    using reach.step [OF r1 cstep.atomic [of demo_sys1 0 "new_thread 0 [Recv ''HELO alice'', Recv ''WDRA 40'']"
        "Recv ''HELO alice''" "[Recv ''WDRA 40'']"]] w2 e2
    by (simp add: demo_sys1_def new_thread_def)
  then show ?thesis .
qed

lemma demo_reach3: "reach demo_srv demo_sys3"
proof -
  note r2 = demo_reach2
  have w3: "wdra_amount (Recv ''WDRA 40'') = Some (Fin 40)"
    by (simp add: wdra_amount_def py_split_def py_float_eval)
  show ?thesis
    using reach.step [OF r2 cstep.acquire [of demo_sys2 0 demo_thread "Recv ''WDRA 40''" "[]" "Fin 40"]] w3
    by (simp add: demo_sys3_def demo_sys2_def demo_sys1_def demo_thread_def init_sys_def)
qed

section \<open>Properties of the concurrent server\<close>

text \<open>
  C1: in every state reachable by any interleaving of any
  number of handler threads, from a ledger without negative balances, no balance
  is negative: the check and the debit of a withdrawal cannot be separated by
  another withdrawal, because both run under \<open>self.lock\<close>.
\<close>

theorem reachable_no_negative:
  assumes "reach srv0 s" "no_negative (accounts srv0)"
  shows "no_negative (accounts (shared s))"
  using reach_conc_inv [OF assms] by (simp add: conc_inv_def)

theorem reachable_no_negative_witness:
  "reach demo_srv demo_sys3 \<and> no_negative (accounts demo_srv) \<and>
   no_negative (accounts (shared demo_sys3))"
proof -
  have h0: "reach demo_srv demo_sys3" by (rule demo_reach3)
  have h1: "no_negative (accounts demo_srv)"
    by (simp_all add: no_negative_def demo_defs py_negative_def float_lt_def)
  show ?thesis using h0 h1 reachable_no_negative [OF h0 h1] by simp
qed

text \<open>
  C4: at most one thread is inside
  \<open>with self.lock:\<close> at any time, and it is the one the lock records.
\<close>

theorem reachable_mutual_exclusion:
  assumes "reach srv0 s" "no_negative (accounts srv0)"
    "thr s t = Some th" "in_lock (phase th)" "thr s t' = Some th'" "in_lock (phase th')"
  shows "t = t' \<and> holder s = Some t"
  using reach_conc_inv [OF assms(1,2)] assms(3-6)
  by (metis conc_inv_def holder_ok_unique conc_inv_holder')

theorem reachable_mutual_exclusion_witness:
  "reach demo_srv demo_sys3 \<and> no_negative (accounts demo_srv) \<and>
   thr demo_sys3 0 = Some (demo_thread\<lparr>inbox := [], phase := Locked (Fin 40)\<rparr>) \<and>
   in_lock (phase (demo_thread\<lparr>inbox := [], phase := Locked (Fin 40)\<rparr>)) \<and>
   holder demo_sys3 = Some 0"
proof -
  have h0: "reach demo_srv demo_sys3" by (rule demo_reach3)
  have h1: "no_negative (accounts demo_srv)"
    "thr demo_sys3 0 = Some (demo_thread\<lparr>inbox := [], phase := Locked (Fin 40)\<rparr>)"
    "in_lock (phase (demo_thread\<lparr>inbox := [], phase := Locked (Fin 40)\<rparr>))"
    by (simp_all add: no_negative_def demo_defs py_negative_def float_lt_def demo_sys3_def)
  show ?thesis using h0 h1 reachable_mutual_exclusion [OF h0 h1 h1(2,3)] by simp
qed

text \<open>
  C2: whenever the lock is free, the ledger in memory is
  the initial ledger with the withdrawals of the log's \<open>Withdraw ... OK\<close>
  entries applied one after the other in log order: concurrent withdrawals
  behave as the sequential run of the committed ones, none lost or doubled
  (file writes succeeding).
\<close>

theorem reachable_linearizable:
  assumes "reach srv0 s" "no_negative (accounts srv0)" "fs srv0 = FsOk" "synced srv0"
    "holder s = None"
  shows "\<exists>new. log (shared s) = log srv0 @ new \<and> accounts (shared s) = replay (accounts srv0) new"
proof -
  have "pending s = None" using assms(5) by (simp add: pending_def)
  with reach_replay_inv [OF assms(1-4)] show ?thesis by (auto simp: replay_inv_def)
qed

theorem reachable_linearizable_witness:
  "reach demo_srv demo_sys2 \<and> no_negative (accounts demo_srv) \<and> fs demo_srv = FsOk \<and>
   synced demo_srv \<and> holder demo_sys2 = None \<and>
   (\<exists>new. log (shared demo_sys2) = log demo_srv @ new \<and>
      accounts (shared demo_sys2) = replay (accounts demo_srv) new)"
proof -
  have h0: "reach demo_srv demo_sys2" by (rule demo_reach2)
  have h1: "no_negative (accounts demo_srv)" "fs demo_srv = FsOk"
    "synced demo_srv" "holder demo_sys2 = None"
    by (simp_all add: no_negative_def demo_defs py_negative_def float_lt_def synced_def
        demo_sys2_def demo_sys1_def init_sys_def)
  show ?thesis using h0 h1 reachable_linearizable [OF h0 h1] by simp
qed

text \<open>
  C13: whenever the lock is free, the ledger file decodes to the
  ledger in memory (file writes succeeding): no reply \<open>525 OK!\<close> is sent
  before the debit it confirms is on disk.
\<close>

theorem reachable_synced:
  assumes "reach srv0 s" "no_negative (accounts srv0)" "fs srv0 = FsOk" "synced srv0"
    "holder s = None"
  shows "load_accounts (disk (shared s)) = Inr (accounts (shared s))"
proof -
  have "pending s = None" using assms(5) by (simp add: pending_def)
  with reach_replay_inv [OF assms(1-4)] show ?thesis by (auto simp: replay_inv_def synced_def)
qed

theorem reachable_synced_witness:
  "reach demo_srv demo_sys2 \<and> no_negative (accounts demo_srv) \<and> fs demo_srv = FsOk \<and>
   synced demo_srv \<and> holder demo_sys2 = None \<and>
   load_accounts (disk (shared demo_sys2)) = Inr (accounts (shared demo_sys2))"
proof -
  have h0: "reach demo_srv demo_sys2" by (rule demo_reach2)
  have h1: "no_negative (accounts demo_srv)" "fs demo_srv = FsOk"
    "synced demo_srv" "holder demo_sys2 = None"
    by (simp_all add: no_negative_def demo_defs py_negative_def float_lt_def synced_def
        demo_sys2_def demo_sys1_def init_sys_def)
  show ?thesis using h0 h1 reachable_synced [OF h0 h1] by simp
qed

end
