(* ===== verification/Repr.thy ===== *)
theory Repr
  imports PyNum
begin

text \<open>
  \<open>float()\<close> reads back what \<open>repr\<close> prints: the server sends a balance as
  \<open>f"AMNT:{balance}"\<close> (src/code/server.py line 64) and the client reads it
  with \<open>float(response.split(":")[1])\<close> (src/code/client.py lines 217--219).
  The lemmas follow the four layouts of CPython's \<open>format_float_short\<close>
  (\<open>repr_digits\<close>): each is parsed by \<open>parse_unsigned\<close> to the value of its
  digits, and \<open>digits_decpt\<close> finds digits denoting the number.
\<close>

text \<open>A number whose \<open>str\<close> reads back exactly: every float parsed from decimal text is.\<close>

definition exact_num :: "pynum \<Rightarrow> bool" where
  "exact_num b = (case b of PyFloat (Fin q) \<Rightarrow> is_decimal q | _ \<Rightarrow> True)"

text \<open>Where a run of digits stops: at the end, or at a character that is neither a digit nor \<open>_\<close>.\<close>

definition digits_stop :: "pystr \<Rightarrow> bool" where
  "digits_stop r \<longleftrightarrow> r = [] \<or> (\<not> is_digit (hd r) \<and> hd r \<noteq> CHR ''_'')"

section \<open>Digit strings\<close>

lemma digit_val_char: "d < 10 \<Longrightarrow> digit_val (digit_char d) = d"
  by (auto simp: digit_val_def digit_char_def less_Suc_eq eval_nat_numeral)

lemma is_digit_char: "d < 10 \<Longrightarrow> is_digit (digit_char d)"
  by (auto simp: is_digit_def digit_char_def less_Suc_eq eval_nat_numeral)

lemma nat_digits_ne: "nat_digits n \<noteq> []"
  by (induction n rule: nat_digits.induct) (simp add: nat_digits.simps)

lemma nat_digits_digits: "list_all is_digit (nat_digits n)"
  by (induction n rule: nat_digits.induct) (simp add: nat_digits.simps is_digit_char)

lemma foldl_digits: "foldl (\<lambda>acc c. 10 * acc + digit_val c) a ys =
    a * 10 ^ length ys + foldl (\<lambda>acc c. 10 * acc + digit_val c) 0 ys"
proof (induction ys arbitrary: a)
  case Nil
  then show ?case by simp
next
  case (Cons y ys)
  have "foldl (\<lambda>acc c. 10 * acc + digit_val c) a (y # ys) =
      (10 * a + digit_val y) * 10 ^ length ys + foldl (\<lambda>acc c. 10 * acc + digit_val c) 0 ys"
    using Cons.IH [of "10 * a + digit_val y"] by simp
  also have "\<dots> = a * 10 ^ length (y # ys) + foldl (\<lambda>acc c. 10 * acc + digit_val c) 0 (y # ys)"
    using Cons.IH [of "digit_val y"] by (simp add: algebra_simps)
  finally show ?case .
qed

lemma digits_nat_append:
  "digits_nat (xs @ ys) = digits_nat xs * 10 ^ length ys + digits_nat ys"
  unfolding digits_nat_def foldl_append by (rule foldl_digits)

lemma digits_nat_simps [simp]:
  "digits_nat [] = 0"
  "digits_nat [c] = digit_val c"
  by (simp_all add: digits_nat_def)

lemma digit_val_zero [simp]: "digit_val CHR ''0'' = 0"
  by (simp add: digit_val_def)

lemma digits_nat_nat_digits: "digits_nat (nat_digits n) = n"
proof (induction n rule: nat_digits.induct)
  case (1 n)
  show ?case
  proof (cases "n < 10")
    case True
    then show ?thesis by (simp add: nat_digits.simps digit_val_char)
  next
    case False
    with 1 show ?thesis
      by (simp add: nat_digits.simps [of n] digits_nat_append digit_val_char)
  qed
qed

lemma digits_nat_replicate0: "digits_nat (replicate k CHR ''0'') = 0"
  by (induction k) (simp_all add: digits_nat_def)

lemma digits_nat_zeros_left: "digits_nat (replicate k CHR ''0'' @ ds) = digits_nat ds"
  by (simp add: digits_nat_append digits_nat_replicate0)

lemma digits_nat_zeros_right:
  "digits_nat (ds @ replicate k CHR ''0'') = digits_nat ds * 10 ^ k"
  by (simp add: digits_nat_append digits_nat_replicate0)

section \<open>\<open>float()\<close> on numerals\<close>

lemma digits_stop_simps [simp]:
  "digits_stop []"
  "digits_stop (CHR ''.'' # r)"
  "digits_stop (CHR ''e'' # r)"
  by (simp_all add: digits_stop_def is_digit_def)

lemma digitrun_digits:
  "list_all is_digit ds \<Longrightarrow> digits_stop r \<Longrightarrow> digitrun (ds @ r) = (ds, r)"
proof (induction ds)
  case Nil
  then show ?case by (cases r) (auto simp: digits_stop_def)
next
  case (Cons d ds)
  then show ?case by simp
qed

lemma digitpart_digits:
  "ds \<noteq> [] \<Longrightarrow> list_all is_digit ds \<Longrightarrow> digits_stop r \<Longrightarrow> digitpart (ds @ r) = Some (ds, r)"
  by (cases ds) (auto simp: digitpart_def digitrun_digits)

lemma parse_exp_digits:
  assumes "ds \<noteq> []" "list_all is_digit ds"
  shows "parse_exp (CHR ''-'' # ds) = Some (- int (digits_nat ds))"
    and "parse_exp (CHR ''+'' # ds) = Some (int (digits_nat ds))"
  using digitpart_digits [OF assms, of "[]"] by (simp_all add: parse_exp_def py_sign_def)

lemma parse_unsigned_point:
  assumes "ip \<noteq> []" "list_all is_digit ip" "fp \<noteq> []" "list_all is_digit fp" "digits_stop t"
  shows "parse_unsigned (ip @ CHR ''.'' # fp @ t) = parse_tail ip fp t"
  using digitpart_digits [OF assms(1,2), of "CHR ''.'' # fp @ t"] digitpart_digits [OF assms(3-5)]
  by (simp add: parse_unsigned_def)

lemma parse_unsigned_int:
  assumes "ip \<noteq> []" "list_all is_digit ip"
  shows "parse_unsigned (ip @ CHR ''e'' # t) = parse_tail ip [] (CHR ''e'' # t)"
  using digitpart_digits [OF assms, of "CHR ''e'' # t"] by (simp add: parse_unsigned_def)

lemma digits_replicate0 [simp]: "list_all is_digit (replicate k CHR ''0'')"
  by (simp add: list_all_iff is_digit_def)

section \<open>Values\<close>

lemma scale10_powi: "scale10 q e = q * (10::rat) powi e"
  by (auto simp: scale10_def power_int_def field_simps power_inverse)

lemma dec_value_powi:
  "dec_value ip fp e = of_nat (digits_nat (ip @ fp)) * (10::rat) powi (e - int (length fp))"
  by (simp add: dec_value_def scale10_powi power_int_diff power_int_of_nat field_simps)

lemma pad2_digits:
  "list_all is_digit s \<Longrightarrow> s \<noteq> [] \<Longrightarrow> pad2 s \<noteq> [] \<and> list_all is_digit (pad2 s) \<and>
     digits_nat (pad2 s) = digits_nat s"
  using digits_nat_zeros_left [of 1 s] by (simp add: pad2_def is_digit_def)

lemma parse_exp_decpt:
  "parse_exp ((if e < 0 then CHR ''-'' else CHR ''+'') # pad2 (nat_digits (nat \<bar>e\<bar>))) = Some e"
proof -
  let ?E = "pad2 (nat_digits (nat \<bar>e\<bar>))"
  have E: "?E \<noteq> []" "list_all is_digit ?E" "digits_nat ?E = nat \<bar>e\<bar>"
    using pad2_digits [OF nat_digits_digits nat_digits_ne] by (simp_all add: digits_nat_nat_digits)
  show ?thesis
    using parse_exp_digits [OF E(1,2)] E(3) by auto
qed

section \<open>The four layouts of \<open>repr\<close>\<close>

text \<open>What the digits \<open>D\<close> with decimal point position \<open>decpt\<close> denote.\<close>

lemma repr_exp_value:
  assumes "D \<noteq> []" "list_all is_digit D"
  shows "parse_unsigned ([hd D] @ (if 1 < length D then CHR ''.'' # tl D else []) @
      CHR ''e'' # (if decpt - 1 < 0 then CHR ''-'' else CHR ''+'') # pad2 (nat_digits (nat \<bar>decpt - 1\<bar>)))
    = Some (of_nat (digits_nat D) * 10 powi (decpt - int (length D)))"
proof -
  let ?t = "CHR ''e'' # (if decpt - 1 < 0 then CHR ''-'' else CHR ''+'') # pad2 (nat_digits (nat \<bar>decpt - 1\<bar>))"
  have hd: "[hd D] \<noteq> []" "list_all is_digit [hd D]" "D = [hd D] @ tl D"
    using assms by (cases D; simp)+
  have tl: "list_all is_digit (tl D)" using assms by (cases D) simp_all
  have tail: "parse_tail ip fp ?t = Some (dec_value ip fp (decpt - 1))" for ip fp
    using parse_exp_decpt [of "decpt - 1"] by (simp add: parse_tail_def)
  show ?thesis
  proof (cases "1 < length D")
    case True
    hence "tl D \<noteq> []" using assms by (cases D) auto
    with True show ?thesis
      using parse_unsigned_point [OF hd(1,2) _ tl, of ?t] tail [of "[hd D]" "tl D"] hd(3)
      by (simp add: dec_value_powi algebra_simps)
  next
    case False
    hence "D = [hd D]" "length D = 1" using assms by (cases D; auto)+
    with False show ?thesis
      using parse_unsigned_int [OF hd(1,2), of "tl ?t"] tail [of "[hd D]" "[]"]
      by (simp add: dec_value_powi)
  qed
qed

lemma repr_small_value:
  assumes "D \<noteq> []" "list_all is_digit D" "decpt \<le> 0"
  shows "parse_unsigned (''0.'' @ replicate (nat (- decpt)) CHR ''0'' @ D @ [])
    = Some (of_nat (digits_nat D) * 10 powi (decpt - int (length D)))"
proof -
  let ?fp = "replicate (nat (- decpt)) CHR ''0'' @ D"
  have "parse_unsigned (''0'' @ CHR ''.'' # ?fp @ []) = parse_tail ''0'' ?fp []"
    by (rule parse_unsigned_point) (use assms in \<open>auto simp: is_digit_def\<close>)
  with assms show ?thesis
    using digits_nat_zeros_left [of "Suc (nat (- decpt))" D]
    by (simp add: parse_tail_def dec_value_powi)
qed

lemma repr_mid_value:
  assumes "list_all is_digit D" "0 < decpt" "decpt < int (length D)"
  shows "parse_unsigned (take (nat decpt) D @ CHR ''.'' # drop (nat decpt) D @ [])
    = Some (of_nat (digits_nat D) * 10 powi (decpt - int (length D)))"
proof -
  have "parse_unsigned (take (nat decpt) D @ CHR ''.'' # drop (nat decpt) D @ []) =
      parse_tail (take (nat decpt) D) (drop (nat decpt) D) []"
    by (rule parse_unsigned_point)
       (use assms in \<open>auto simp: list_all_iff dest: in_set_takeD in_set_dropD\<close>)
  with assms show ?thesis by (simp add: parse_tail_def dec_value_powi)
qed

lemma repr_big_value:
  assumes "D \<noteq> []" "list_all is_digit D" "int (length D) \<le> decpt"
  shows "parse_unsigned ((D @ replicate (nat (decpt - int (length D))) CHR ''0'') @ CHR ''.'' # ''0'' @ [])
    = Some (of_nat (digits_nat D) * 10 powi (decpt - int (length D)))"
proof -
  let ?ip = "D @ replicate (nat (decpt - int (length D))) CHR ''0''"
  have "parse_unsigned (?ip @ CHR ''.'' # ''0'' @ []) = parse_tail ?ip ''0'' []"
    by (rule parse_unsigned_point) (use assms in \<open>auto simp: is_digit_def\<close>)
  also have "\<dots> = Some (of_nat (digits_nat D * 10 ^ nat (decpt - int (length D)) * 10) * 10 powi (- 1))"
    by (simp add: parse_tail_def dec_value_powi digits_nat_append digits_nat_replicate0)
  also have "\<dots> = Some (of_nat (digits_nat D) * 10 ^ nat (decpt - int (length D)))"
    by (simp add: power_int_minus)
  also have "\<dots> = Some (of_nat (digits_nat D) * 10 powi (decpt - int (length D)))"
    using assms(3) by (simp add: power_int_def)
  finally show ?thesis .
qed

lemma repr_digits_value:
  assumes "D \<noteq> []" "list_all is_digit D"
  shows "parse_unsigned (repr_digits D decpt) = Some (of_nat (digits_nat D) * 10 powi (decpt - int (length D)))"
proof -
  consider (e) "decpt \<le> -4 \<or> 16 < decpt" | (s) "\<not> (decpt \<le> -4 \<or> 16 < decpt)" "decpt \<le> 0"
    | (m) "\<not> (decpt \<le> -4 \<or> 16 < decpt)" "0 < decpt" "decpt < int (length D)"
    | (b) "\<not> (decpt \<le> -4 \<or> 16 < decpt)" "int (length D) \<le> decpt"
    by linarith
  then show ?thesis
  proof cases
    case e
    then show ?thesis using repr_exp_value [OF assms, of decpt] by (simp add: repr_digits_def)
  next
    case s
    then show ?thesis using repr_small_value [OF assms s(2)] by (simp add: repr_digits_def Let_def)
  next
    case m
    then show ?thesis using repr_mid_value [OF assms(2) m(2,3)] by (simp add: repr_digits_def Let_def)
  next
    case b
    moreover have "\<not> decpt \<le> 0" "\<not> decpt < int (length D)"
    proof -
      have "0 < length D" using assms(1) by simp
      with b(2) show "\<not> decpt \<le> 0" "\<not> decpt < int (length D)" by linarith+
    qed
    ultimately show ?thesis using repr_big_value [OF assms b(2)] by (simp add: repr_digits_def Let_def)
  qed
qed

section \<open>The digits of a decimal\<close>

lemma is_decimal_int:
  assumes "is_decimal q"
  obtains i :: int where "q * 10 ^ dec_places q = of_int i"
proof -
  obtain n d where qd: "quotient_of q = (n, d)" by (cases "quotient_of q") auto
  with assms obtain c where c: "10 ^ dec_places q = d * c" by (auto simp: is_decimal_def elim: dvdE)
  have "d > 0" using qd quotient_of_denom_pos by blast
  have "q = of_int n / of_int d" using qd quotient_of_div by blast
  hence "q * 10 ^ dec_places q = of_int (n * c)"
    using \<open>d > 0\<close> by (simp add: c [THEN arg_cong [where f = "of_int :: int \<Rightarrow> rat"], simplified] field_simps)
  then show ?thesis by (rule that)
qed

lemma trailing_zeros:
  "xs = rev (dropWhile (\<lambda>c. c = CHR ''0'') (rev xs)) @
     replicate (length (takeWhile (\<lambda>c. c = CHR ''0'') (rev xs))) CHR ''0''"
proof -
  have "\<forall>y\<in>set (rev (takeWhile (\<lambda>c. c = CHR ''0'') (rev xs))). y = CHR ''0''"
    by (auto dest: set_takeWhileD)
  from replicate_length_same [OF this]
  have e: "replicate (length (takeWhile (\<lambda>c. c = CHR ''0'') (rev xs))) CHR ''0'' =
      rev (takeWhile (\<lambda>c. c = CHR ''0'') (rev xs))" by simp
  show ?thesis unfolding e by (rule rev_dropWhile_rev_split)
qed

lemma digits_decpt_value:
  assumes "0 < q" "is_decimal q" "digits_decpt q = (D, decpt)"
  shows "D \<noteq> [] \<and> list_all is_digit D \<and> q = of_nat (digits_nat D) * 10 powi (decpt - int (length D))"
proof -
  let ?k = "dec_places q"
  obtain i where i: "q * 10 ^ ?k = of_int i" using assms(2) by (rule is_decimal_int)
  have "0 < q * 10 ^ ?k" using assms(1) by simp
  hence ipos: "0 < i" using i by simp
  let ?m = "nat i"
  have fl: "nat \<lfloor>q * 10 ^ ?k\<rfloor> = ?m" using i by simp
  have DD: "D = rev (dropWhile (\<lambda>c. c = CHR ''0'') (rev (nat_digits ?m)))"
      "decpt = int (length (nat_digits ?m)) - int ?k"
    using assms(3) by (simp_all add: digits_decpt_def Let_def fl)
  obtain z where split: "nat_digits ?m = D @ replicate z CHR ''0''"
    using trailing_zeros [of "nat_digits ?m"] DD(1) by metis
  have val: "digits_nat D * 10 ^ z = ?m"
    using digits_nat_nat_digits [of ?m] digits_nat_zeros_right [of D z] split by simp
  have "D \<noteq> []"
  proof
    assume "D = []"
    with val ipos show False by simp
  qed
  moreover have "list_all is_digit D"
    using nat_digits_digits [of ?m] DD(1) by (auto simp: list_all_iff dest: set_dropWhileD)
  moreover have "q = of_nat (digits_nat D) * 10 powi (decpt - int (length D))"
  proof -
    have len: "decpt = int (length D) + int z - int ?k" using DD(2) split by simp
    have "(of_int i :: rat) = of_nat ?m" using ipos by simp
    also have "\<dots> = of_nat (digits_nat D) * 10 ^ z" using val [symmetric] by simp
    finally have iq: "(of_int i :: rat) = of_nat (digits_nat D) * 10 ^ z" .
    have "q = of_int i / 10 ^ ?k" using i by (simp add: field_simps)
    also have "\<dots> = of_nat (digits_nat D) * 10 ^ z / 10 ^ ?k" by (simp add: iq)
    also have "\<dots> = of_nat (digits_nat D) * 10 powi (int z - int ?k)"
      by (simp add: power_int_diff power_int_of_nat)
    finally show ?thesis using len by simp
  qed
  ultimately show ?thesis by blast
qed

section \<open>\<open>float(repr(x)) = x\<close>\<close>

lemma list_all_take_drop:
  "list_all P xs \<Longrightarrow> list_all P (take n xs) \<and> list_all P (drop n xs) \<and> list_all P (tl xs)"
proof (intro conjI)
  assume a: "list_all P xs"
  show "list_all P (take n xs)" using a by (auto simp: list_all_iff dest: in_set_takeD)
  show "list_all P (drop n xs)" using a by (auto simp: list_all_iff dest: in_set_dropD)
  show "list_all P (tl xs)" using a by (cases xs) auto
qed

lemma digits_numchar: "list_all is_digit xs \<Longrightarrow> list_all numchar xs"
  by (auto simp: list_all_iff digit_numchar)

lemma repr_digits_shape:
  assumes "D \<noteq> []" "list_all is_digit D"
  shows "\<exists>c r. repr_digits D decpt = c # r \<and> is_digit c \<and> list_all numchar r"
proof -
  have hd: "is_digit (hd D)" using assms by (cases D) auto
  have nD: "list_all numchar D" by (rule digits_numchar [OF assms(2)])
  have tl: "list_all numchar (tl D)" "list_all numchar (drop n D)" "list_all numchar (tl (take n D))" for n
    using list_all_take_drop [OF nD] list_all_take_drop [of numchar "take n D"] by auto
  have pad: "list_all numchar (pad2 (nat_digits n))" for n
    using pad2_digits [OF nat_digits_digits nat_digits_ne] digits_numchar by blast
  have zero: "is_digit CHR ''0''" "numchar CHR ''0''" by (simp_all add: is_digit_def numchar_def)
  have z: "list_all numchar (replicate k CHR ''0'')" for k by (rule digits_numchar) simp
  consider (e) "decpt \<le> -4 \<or> 16 < decpt" | (s) "\<not> (decpt \<le> -4 \<or> 16 < decpt)" "decpt \<le> 0"
    | (m) "\<not> (decpt \<le> -4 \<or> 16 < decpt)" "0 < decpt" "decpt < int (length D)"
    | (b) "\<not> (decpt \<le> -4 \<or> 16 < decpt)" "\<not> decpt \<le> 0" "\<not> decpt < int (length D)"
    by linarith
  then show ?thesis
  proof cases
    case e
    then have "repr_digits D decpt = hd D # (if 1 < length D then CHR ''.'' # tl D else []) @
        CHR ''e'' # (if decpt - 1 < 0 then CHR ''-'' else CHR ''+'') # pad2 (nat_digits (nat \<bar>decpt - 1\<bar>))"
      by (simp add: repr_digits_def)
    with hd tl pad show ?thesis by auto
  next
    case s
    then have "repr_digits D decpt = CHR ''0'' # CHR ''.'' # replicate (nat (- decpt)) CHR ''0'' @ D"
      by (simp add: repr_digits_def Let_def)
    with zero z nD show ?thesis by auto
  next
    case m
    have ne: "take (nat decpt) D \<noteq> []" using m assms(1) by simp
    have "hd (take (nat decpt) D) = hd D" using m by (simp add: hd_take)
    with hd_Cons_tl [OF ne] have "take (nat decpt) D = hd D # tl (take (nat decpt) D)" by simp
    with m have "repr_digits D decpt = hd D # tl (take (nat decpt) D) @ CHR ''.'' # drop (nat decpt) D"
      by (simp add: repr_digits_def Let_def)
    with hd tl show ?thesis by auto
  next
    case b
    then have "repr_digits D decpt = D @ replicate (nat (decpt - int (length D))) CHR ''0'' @ ''.0''"
      by (simp add: repr_digits_def Let_def)
    also have "\<dots> = hd D # tl D @ replicate (nat (decpt - int (length D))) CHR ''0'' @ ''.0''"
      using assms(1) by (cases D) simp_all
    finally have "repr_digits D decpt =
        hd D # tl D @ replicate (nat (decpt - int (length D))) CHR ''0'' @ ''.0''" .
    with hd tl z zero show ?thesis by auto
  qed
qed

lemma dropWhile_none: "list_all (\<lambda>c. \<not> P c) s \<Longrightarrow> dropWhile P s = s"
  by (cases s) simp_all

lemma py_strip_plain: "list_all (\<lambda>c. \<not> py_isspace c) s \<Longrightarrow> py_strip s = s"
  by (simp add: py_strip_def dropWhile_none)

lemma ascii_lower_digit: "is_digit c \<Longrightarrow> ascii_lower c = c"
proof -
  assume "is_digit c"
  hence "c \<notin> set ''ABCDEFGHIJKLMNOPQRSTUVWXYZ''" by (auto simp: is_digit_def)
  thus ?thesis by (simp add: ascii_lower_def map_of_zip_is_None)
qed

lemma py_float_numeral:
  assumes "parse_unsigned (c # r) = Some v" "is_digit c" "list_all numchar r"
  shows "py_float ((if neg then ''-'' else []) @ c # r) = Inr (Fin (if neg then - v else v))"
proof -
  have nc: "list_all numchar ((if neg then ''-'' else []) @ c # r)"
    using assms(2,3) digit_numchar by simp
  hence "py_strip ((if neg then ''-'' else []) @ c # r) = (if neg then ''-'' else []) @ c # r"
    by (intro py_strip_plain) (auto simp: list_all_iff numchar_not_space)
  moreover have "c \<noteq> CHR ''-''" "c \<noteq> CHR ''+''" "c \<noteq> CHR ''i''" "c \<noteq> CHR ''n''"
    using assms(2) by (auto simp: is_digit_def)
  ultimately show ?thesis
    using assms(1) ascii_lower_digit [OF assms(2)] by (simp add: py_float_def py_sign_def)
qed

lemma is_decimal_abs: "is_decimal \<bar>q\<bar> = is_decimal q"
  by (simp add: is_decimal_def dec_places_def rat_abs_code split: prod.splits)

lemma float_repr_roundtrip:
  assumes "is_decimal q"
  shows "py_float (py_repr_float (Fin q)) = Inr (Fin q)"
proof (cases "q = 0")
  case True
  then show ?thesis by (simp add: py_float_eval)
next
  case False
  obtain D decpt where dd: "digits_decpt \<bar>q\<bar> = (D, decpt)" by (cases "digits_decpt \<bar>q\<bar>") auto
  have v: "D \<noteq> []" "list_all is_digit D" "\<bar>q\<bar> = of_nat (digits_nat D) * 10 powi (decpt - int (length D))"
    using digits_decpt_value [of "\<bar>q\<bar>", OF _ _ dd] False assms by (simp_all add: is_decimal_abs)
  obtain c r where cr: "repr_digits D decpt = c # r" "is_digit c" "list_all numchar r"
    using repr_digits_shape [OF v(1,2)] by blast
  have "parse_unsigned (c # r) = Some \<bar>q\<bar>"
    using repr_digits_value [OF v(1,2), of decpt] v(3) cr(1) by simp
  from py_float_numeral [OF this cr(2,3), of "q < 0"] False cr(1) dd show ?thesis by simp
qed

lemma parse_unsigned_nat_digits: "parse_unsigned (nat_digits n) = Some (of_nat n)"
  using digitpart_digits [OF nat_digits_ne nat_digits_digits, of "[]" n]
  by (simp add: parse_unsigned_def parse_tail_def dec_value_powi digits_nat_nat_digits)

lemma nat_digits_shape: "\<exists>c r. nat_digits n = c # r \<and> is_digit c \<and> list_all numchar r"
  using nat_digits_ne [of n] nat_digits_digits [of n]
  by (cases "nat_digits n") (auto simp: digits_numchar)

lemma float_str_int: "py_float (py_str_int i) = Inr (Fin (of_int i))"
proof -
  obtain c r where cr: "nat_digits (nat \<bar>i\<bar>) = c # r" "is_digit c" "list_all numchar r"
    using nat_digits_shape by blast
  have "parse_unsigned (c # r) = Some (of_nat (nat \<bar>i\<bar>))"
    using parse_unsigned_nat_digits [of "nat \<bar>i\<bar>"] cr(1) by simp
  from py_float_numeral [OF this cr(2,3), of "i < 0"] cr(1) show ?thesis
    by (cases "i < 0") (simp_all add: py_str_int_def)
qed

lemma float_str_num:
  assumes "exact_num b"
  shows "py_float (py_str_num b) = Inr (to_float b)"
proof (cases b)
  case (PyInt i)
  then show ?thesis by (simp add: float_str_int)
next
  case (PyFloat x)
  show ?thesis
  proof (cases x)
    case (Fin q)
    with assms PyFloat show ?thesis
      using float_repr_roundtrip [of q] by (simp add: exact_num_def del: py_repr_float.simps)
  qed (simp_all add: PyFloat py_float_eval)
qed

text \<open>\<open>str\<close> of a number never contains the separator the client splits on.\<close>

lemma numchar_colon: "numchar c \<Longrightarrow> c \<noteq> CHR '':''"
  by (auto simp: numchar_def)

lemma numeral_no_colon:
  "is_digit c \<Longrightarrow> list_all numchar r \<Longrightarrow> CHR '':'' \<notin> set (c # r)"
  using digit_numchar [of c] numchar_colon by (fastforce simp: list_all_iff)

lemma colon_not_in_str_num:
  assumes "exact_num b"
  shows "CHR '':'' \<notin> set (py_str_num b)"
proof -
  have nd: "CHR '':'' \<notin> set (nat_digits n)" for n
    using nat_digits_shape [of n] numeral_no_colon by metis
  show ?thesis
  proof (cases b)
    case (PyInt i)
    then show ?thesis using nd by (simp add: py_str_int_def)
  next
    case (PyFloat x)
    show ?thesis
    proof (cases x)
      case (Fin q)
      show ?thesis
      proof (cases "q = 0")
        case False
        obtain D e where dd: "digits_decpt \<bar>q\<bar> = (D, e)" by (cases "digits_decpt \<bar>q\<bar>") auto
        have "D \<noteq> []" "list_all is_digit D"
          using digits_decpt_value [of "\<bar>q\<bar>", OF _ _ dd] False assms PyFloat Fin
          by (simp_all add: is_decimal_abs exact_num_def)
        from repr_digits_shape [OF this, of e] obtain c r where
          "repr_digits D e = c # r" "is_digit c" "list_all numchar r" by blast
        then have "CHR '':'' \<notin> set (repr_digits D e)"
          using numeral_no_colon by metis
        with False PyFloat Fin dd show ?thesis by simp
      qed (simp add: PyFloat Fin)
    qed (simp_all add: PyFloat)
  qed
qed

end
