(* ===== verification/Protocol.thy ===== *)
theory Protocol
  imports Client Concurrency Repr
begin

text \<open>
  The client of \<open>Client\<close> connected to one handler thread of \<open>Server\<close>: the
  transport \<open>server_exch\<close> delivers the command the client sends with
  \<open>sendall\<close> (src/code/client.py line 251) as the chunk \<open>conn.recv(1024)\<close>
  returns to \<open>handle_client\<close> (src/code/server.py line 37), runs one turn of
  its loop, and returns to the client's \<open>recv(1024)\<close> (line 252) the message
  the handler sent.  A handler that leaves its loop closes the connection
  (\<open>finally: conn.close()\<close>); a handler that sends nothing and goes on
  waiting leaves the client blocked in \<open>recv\<close>.  Each command is assumed to
  arrive as one chunk, as it does when it is shorter than 1024 bytes and the
  client waits for each reply before it sends again.

  After the handler has closed the connection, TCP lets the client's next
  \<open>sendall\<close> succeed; the closed end answers it with a reset, and the
  client's \<open>recv\<close> returns the end of stream \<open>b''\<close> that the handler's close
  had queued.  The socket is then broken: every later \<open>sendall\<close> raises
  \<open>BrokenPipeError\<close> (an \<open>OSError\<close>, caught by \<open>send_command\<close>).
\<close>

section \<open>The connection\<close>

text \<open>
  The client's view of the TCP connection: open; closed by the handler, with
  the next exchange still getting \<open>b''\<close>; broken.
\<close>

datatype conn = Open | PeerClosed | Broken

record link =
  lsrv :: server
  lss :: session
  lconn :: conn

text \<open>
  What the client's \<open>recv\<close> returns after one turn of the handler: the message
  sent (a turn sends at most one, \<open>Server.cmd_replies\<close>), \<open>''''\<close> when the
  handler has closed the connection, nothing while it waits.
\<close>

definition first_reply :: "flow \<Rightarrow> pystr list \<Rightarrow> reply" where
  "first_reply fl out =
     (case out of m # _ \<Rightarrow> Reply m | [] \<Rightarrow> if fl = Continue then Hangs else Reply [])"

definition server_exch :: "link transport" where
  "server_exch cmd l =
     (case lconn l of
        Open \<Rightarrow>
          (case handle_event (Recv cmd) (lsrv l) (lss l) of
             (fl, out, srv', ss') \<Rightarrow>
               (first_reply fl out,
                l\<lparr>lsrv := srv', lss := ss', lconn := (if fl = Continue then Open else PeerClosed)\<rparr>))
      | PeerClosed \<Rightarrow> (Reply [], l\<lparr>lconn := Broken\<rparr>)
      | Broken \<Rightarrow> (Fails, l))"

text \<open>
  \<open>self.sock.close()\<close>: an open handler's \<open>recv\<close> returns \<open>b''\<close> and its loop
  breaks; the client's socket cannot be used again.
\<close>

definition close_link :: "link \<Rightarrow> link" where
  "close_link l =
     (case lconn l of
        Open \<Rightarrow>
          (case handle_event (Recv []) (lsrv l) (lss l) of
             (fl, out, srv', ss') \<Rightarrow> l\<lparr>lsrv := srv', lss := ss', lconn := Broken\<rparr>)
      | _ \<Rightarrow> l\<lparr>lconn := Broken\<rparr>)"

definition init_link :: "server \<Rightarrow> peer \<Rightarrow> link" where
  "init_link srv addr = \<lparr>lsrv = srv, lss = \<lparr>peer = addr, current_user = None\<rparr>, lconn = Open\<rparr>"

text \<open>
  The client program started against a server that accepts the connection,
  its window served by a fresh handler thread.
\<close>

definition gui_session :: "server \<Rightarrow> action list \<Rightarrow> link cresult" where
  "gui_session srv acts = client_main server_exch close_link True acts (init_link srv 0)"

text \<open>The handler's session is bound to a non-empty id, so \<open>BALA\<close> is answered.\<close>

definition bound_session :: "session \<Rightarrow> bool" where
  "bound_session ss = (case current_user ss of Some u \<Rightarrow> u \<noteq> [] | None \<Rightarrow> False)"

text \<open>On the main screen, an open connection has a bound handler.\<close>

definition gui_inv :: "client \<Rightarrow> link \<Rightarrow> bool" where
  "gui_inv cl l \<longleftrightarrow> (screen cl = MainScreen \<and> lconn l = Open \<longrightarrow> bound_session (lss l))"

section \<open>How the handler reads the client's commands\<close>

lemma handle_event_cmd:
  "py_word w \<Longrightarrow> handle_event (Recv (w @ CHR '' '' # s)) srv ss = handle_parts (w # py_split s) srv ss"
  by (simp add: Let_def py_split_cmd py_strip_cmd)

lemma py_word_cmds [simp]:
  "py_word ''HELO''" "py_word ''PASS''" "py_word ''WDRA''"
  by (simp_all add: py_word_def py_isspace_def)

lemma handle_event_client_cmds:
  "handle_event (Recv (''HELO '' @ u)) srv ss = handle_parts (''HELO'' # py_split u) srv ss"
  "handle_event (Recv (''PASS '' @ p)) srv ss = handle_parts (''PASS'' # py_split p) srv ss"
  "handle_event (Recv (''WDRA '' @ a)) srv ss = handle_parts (''WDRA'' # py_split a) srv ss"
  "handle_event (Recv ''BALA'') srv ss = cmd_bala srv ss"
  "handle_event (Recv ''BYE'') srv ss = cmd_bye srv ss"
  "handle_event (Recv []) srv ss = (Break, [], srv, ss)"
  using handle_event_cmd [of "''HELO''" u] handle_event_cmd [of "''PASS''" p]
    handle_event_cmd [of "''WDRA''" a]
  by (simp_all add: py_strip_def py_split_def py_isspace_def handle_parts_def)

text \<open>The same with the command literals as the simplifier writes them.\<close>

lemmas handle_event_client = handle_event_client_cmds [simplified append_Cons append_Nil]

lemma server_exch_open:
  "lconn l = Open \<Longrightarrow> handle_event (Recv cmd) (lsrv l) (lss l) = (fl, out, srv', ss') \<Longrightarrow>
     server_exch cmd l =
       (first_reply fl out, l\<lparr>lsrv := srv', lss := ss', lconn := (if fl = Continue then Open else PeerClosed)\<rparr>)"
  by (simp add: server_exch_def)

lemma server_exch_peer_closed: "lconn l = PeerClosed \<Longrightarrow> server_exch cmd l = (Reply [], l\<lparr>lconn := Broken\<rparr>)"
  by (simp add: server_exch_def)

lemma server_exch_broken: "lconn l = Broken \<Longrightarrow> server_exch cmd l = (Fails, l)"
  by (simp add: server_exch_def)

lemma server_exch_Fails: "server_exch cmd l = (Fails, l') \<Longrightarrow> lconn l' = Broken"
  by (auto simp: server_exch_def first_reply_def split: conn.splits prod.splits list.splits if_splits)

text \<open>
  A login on a connection the handler has closed: the next exchange gets
  \<open>b''\<close> and the window shows \<open>invalid username\<close>; on a broken connection
  \<open>sendall\<close> raises, the window shows the connection error and is destroyed,
  and the callback then dies with \<open>TclError\<close> on the status bar.
\<close>

lemma login_peer_closed:
  "alive cl \<Longrightarrow> lconn l = PeerClosed \<Longrightarrow> login server_exch u p cl l =
     Some (Ret (), [ErrBadUser], cl\<lparr>status_text := status_text cl @ [(TryLogin u, TagSys),
       (Sent (''HELO '' @ u), TagSend), (Received [], TagRecv), (BadUser, TagError)]\<rparr>, l\<lparr>lconn := Broken\<rparr>)"
  by (simp add: login_def cb_eval send_command_alive server_exch_peer_closed)

lemma login_broken:
  "alive cl \<Longrightarrow> lconn l = Broken \<Longrightarrow> login server_exch u p cl l =
     Some (Raise TclError, [ErrConnection], cl\<lparr>alive := False, status_text := status_text cl @
       [(TryLogin u, TagSys), (CommError, TagError)]\<rparr>, l)"
  by (simp add: login_def cb_eval send_command_alive server_exch_broken)

lemma gui_inv_login_screen [simp]: "screen cl = LoginScreen \<Longrightarrow> gui_inv cl l"
  by (simp add: gui_inv_def)

lemma gui_inv_not_open [simp]: "lconn l \<noteq> Open \<Longrightarrow> gui_inv cl l"
  by (simp add: gui_inv_def)

section \<open>Which commands the handler answers\<close>

lemma cmd_answers:
  "cmd_helo parts srv ss = (Continue, out, srv', ss') \<Longrightarrow> out \<noteq> []"
  "cmd_pass parts srv ss = (Continue, out, srv', ss') \<Longrightarrow> out \<noteq> []"
  "cmd_wdra parts srv ss = (Continue, out, srv', ss') \<Longrightarrow> out \<noteq> []"
  "bound_session ss \<Longrightarrow> cmd_bala srv ss = (Continue, out, srv', ss') \<Longrightarrow> out \<noteq> []"
  "cmd_bye srv ss = (Continue, out, srv', ss') \<Longrightarrow> False"
  by (auto simp: cmd_helo_def cmd_pass_def cmd_wdra_def wdra_locked_def cmd_bala_def cmd_bye_def
      bound_session_def Let_def split: sum.splits if_splits option.splits prod.splits)

lemma server_exch_answered:
  assumes "\<And>fl out srv' ss'. lconn l = Open \<Longrightarrow> handle_event (Recv cmd) (lsrv l) (lss l) = (fl, out, srv', ss') \<Longrightarrow>
      fl = Continue \<Longrightarrow> out \<noteq> []"
  shows "fst (server_exch cmd l) \<noteq> Hangs"
  using assms by (auto simp: server_exch_def first_reply_def split: conn.splits prod.splits list.splits)

lemma client_cmds_answered:
  "fst (server_exch (''HELO '' @ u) l) \<noteq> Hangs"
  "fst (server_exch (''PASS '' @ p) l) \<noteq> Hangs"
  "fst (server_exch (''WDRA '' @ a) l) \<noteq> Hangs"
  "fst (server_exch ''BYE'' l) \<noteq> Hangs"
  "bound_session (lss l) \<Longrightarrow> fst (server_exch ''BALA'' l) \<noteq> Hangs"
  by (auto intro!: server_exch_answered dest: cmd_answers
      simp del: handle_event.simps simp: handle_event_client handle_parts_def)

text \<open>An exchange the handler answers either returns a reply or fails on a broken connection.\<close>

lemma answered_cases:
  assumes "fst (server_exch cmd l) \<noteq> Hangs"
  obtains (reply) r l' where "server_exch cmd l = (Reply r, l')"
  | (fails) "server_exch cmd l = (Fails, l)" "lconn l = Broken"
  using assms by (cases "lconn l") (auto simp: server_exch_def first_reply_def split: prod.splits list.splits if_splits)

lemma server_exch_session:
  assumes "\<And>fl out srv' ss'. handle_event (Recv cmd) (lsrv l) (lss l) = (fl, out, srv', ss') \<Longrightarrow> ss' = lss l"
    and "server_exch cmd l = (r, l')"
  shows "lss l' = lss l \<and> (lconn l' = Open \<longrightarrow> lconn l = Open)"
  using assms by (auto simp: server_exch_def split: conn.splits prod.splits)

lemma client_cmds_session:
  "server_exch (''PASS '' @ p) l = (r, l') \<Longrightarrow> lss l' = lss l \<and> (lconn l' = Open \<longrightarrow> lconn l = Open)"
  "server_exch (''WDRA '' @ a) l = (r, l') \<Longrightarrow> lss l' = lss l \<and> (lconn l' = Open \<longrightarrow> lconn l = Open)"
  "server_exch ''BALA'' l = (r, l') \<Longrightarrow> lss l' = lss l \<and> (lconn l' = Open \<longrightarrow> lconn l = Open)"
  by (auto elim!: server_exch_session [rotated] dest: cmd_pass_frame cmd_wdra_frame cmd_bala_frame
      simp del: handle_event.simps simp: handle_event_client handle_parts_def)

text \<open>Only a \<open>PASS\<close> the handler accepted is answered with \<open>525 OK!\<close>.\<close>

lemma pass_ok_bound:
  assumes "server_exch (''PASS '' @ p) l = (Reply r, l')" "py_contains ''525 OK!'' r"
  shows "bound_session (lss l')"
proof (cases "lconn l")
  case Open
  with assms show ?thesis
    by (auto simp del: handle_event.simps
        simp: server_exch_def handle_event_client handle_parts_def cmd_pass_def
        first_reply_def bound_session_def reply_defs split: prod.splits sum.splits option.splits
        if_splits list.splits)
qed (use assms in \<open>simp_all add: server_exch_def\<close>)

section \<open>The window never blocks\<close>

lemma bala_answered:
  "gui_inv cl l \<Longrightarrow> screen cl = MainScreen \<Longrightarrow> fst (server_exch ''BALA'' l) \<noteq> Hangs"
  by (cases "lconn l") (auto simp: gui_inv_def server_exch_def dest: client_cmds_answered(5))

lemma gui_inv_kept:
  "gui_inv cl l \<Longrightarrow> lss l' = lss l \<and> (lconn l' = Open \<longrightarrow> lconn l = Open) \<Longrightarrow> gui_inv cl l'"
  by (auto simp: gui_inv_def)

lemma run_action_live:
  assumes "alive cl" "gui_inv cl l" "enabled a cl"
  shows "\<exists>y ds cl' l'. run_action server_exch close_link a cl l = Some (y, ds, cl', l') \<and> gui_inv cl' l'"
proof (cases a)
  case (Login u p)
  show ?thesis
  proof (cases rule: answered_cases [OF client_cmds_answered(1) [of u l], case_names reply fails])
    case (reply r l1)
    note e1 = reply [simplified append_Cons append_Nil]
    show ?thesis
    proof (cases rule: answered_cases [OF client_cmds_answered(2) [of p l1], case_names reply fails])
      case (reply r2 l2)
      have "py_contains ''525 OK!'' r2 \<Longrightarrow> bound_session (lss l2)" by (rule pass_ok_bound [OF reply])
      with Login assms e1 show ?thesis
        by (simp add: login_def cb_eval send_command_alive gui_inv_def reply [simplified append_Cons append_Nil])
    next
      case fails
      with Login assms(1) e1 show ?thesis
        by (simp add: login_def cb_eval send_command_alive fails(1) [simplified append_Cons append_Nil])
    qed
  next
    case fails
    with Login assms(1) show ?thesis
      by (simp add: login_def cb_eval send_command_alive fails(1) [simplified append_Cons append_Nil])
  qed
next
  case Exit
  with assms show ?thesis by (simp add: on_closing_def cb_eval gui_inv_def)
next
  case CheckBalance
  have "fst (server_exch ''BALA'' l) \<noteq> Hangs" using bala_answered CheckBalance assms by simp
  then show ?thesis
  proof (cases rule: answered_cases)
    case (reply r l1)
    have "gui_inv cl l1" using gui_inv_kept [OF assms(2) client_cmds_session(3) [OF reply]] .
    with CheckBalance assms(1) reply show ?thesis
      by (simp add: check_balance_def cb_eval send_command_alive gui_inv_def split: sum.split)
  next
    case fails
    with CheckBalance assms(1) show ?thesis by (simp add: check_balance_def cb_eval send_command_alive)
  qed
next
  case OpenWithdraw
  with assms show ?thesis by (simp add: cb_eval gui_inv_def)
next
  case (Withdraw x)
  show ?thesis
  proof (cases "py_float x")
    case Inl
    with Withdraw assms show ?thesis by (simp add: withdraw_rejected gui_inv_def)
  next
    case Inr
    show ?thesis
    proof (cases rule: answered_cases [OF client_cmds_answered(3) [of x l], case_names reply fails])
      case (reply r l1)
      have "gui_inv cl l1" using gui_inv_kept [OF assms(2) client_cmds_session(2) [OF reply]] .
      with Withdraw Inr assms(1) reply show ?thesis
        by (simp add: withdraw_def cb_eval send_command_alive reply [simplified append_Cons append_Nil] gui_inv_def)
    next
      case fails
      with Withdraw Inr assms(1) show ?thesis
        by (simp add: withdraw_def cb_eval send_command_alive fails(1) [simplified append_Cons append_Nil])
    qed
  qed
next
  case Logout
  show ?thesis
  proof (cases rule: answered_cases [OF client_cmds_answered(4) [of l], case_names reply fails])
    case (reply r l1)
    with Logout assms(1) show ?thesis by (simp add: logout_def cb_eval send_command_alive gui_inv_def)
  next
    case fails
    with Logout assms(1) show ?thesis by (simp add: logout_def cb_eval send_command_alive)
  qed
qed

lemma run_actions_live:
  "gui_inv cl l \<Longrightarrow> run_actions server_exch close_link acts cl l \<noteq> None"
proof (induction acts arbitrary: cl l)
  case Nil
  then show ?case by simp
next
  case (Cons a acts)
  show ?case
  proof (cases "alive cl \<and> enabled a cl")
    case False
    with Cons show ?thesis by auto
  next
    case True
    then obtain y ds cl' l' where
      r: "run_action server_exch close_link a cl l = Some (y, ds, cl', l')" and i: "gui_inv cl' l'"
      using run_action_live [OF _ Cons.prems] by blast
    from Cons.IH [OF i] True r show ?thesis
      by (auto simp: callback_def split: option.splits outcome.splits)
  qed
qed

text \<open>
  C3: whatever the user clicks, in whatever order, and whatever the ledger
  holds, the client program started against the server never blocks in
  \<open>recv\<close> waiting for a reply the handler never sends: every command the
  client can send is answered or ends the connection.
\<close>

theorem gui_never_freezes: "gui_session srv acts \<noteq> None"
proof -
  have "run_actions server_exch close_link acts init_client (init_link srv 0) \<noteq> None"
    by (rule run_actions_live) (simp add: gui_inv_def init_client_def)
  then show ?thesis
    by (auto simp: gui_session_def client_main_def client_init_reachable split: option.splits)
qed

section \<open>End to end\<close>

lemma py_split_sep_none: "d \<notin> set s \<Longrightarrow> py_split_sep d s = [s]"
  by (induction s) auto

lemma amnt_field: "CHR '':'' \<notin> set s \<Longrightarrow> py_split_sep CHR '':'' (''AMNT:'' @ s) ! 1 = s"
  by (simp add: py_split_sep_none)

lemma py_split_float_arg: "py_float a = Inr x \<Longrightarrow> py_split a = [py_strip a]"
  using py_float_word [of a x] py_split_strip [of a] py_split_single [of "py_strip a"]
  by (simp add: py_word_def)

lemma handle_event_wdra:
  "py_float a = Inr x \<Longrightarrow> handle_event (Recv (''WDRA '' @ a)) srv ss = wdra_locked x srv ss"
  unfolding handle_event_client_cmds(3)
  by (simp add: py_split_float_arg handle_parts_def cmd_wdra_def py_float_strip)

lemma login_helo:
  assumes "accounts srv u = Some a" "py_word u"
  shows "handle_event (Recv (''HELO '' @ u)) srv ss =
    (Continue, [AUTH_REQUIRE], log_ev (peer ss) (AuthRequired u) srv, ss\<lparr>current_user := Some u\<rparr>)"
  using assms py_split_single [of u]
  unfolding handle_event_client_cmds(1) by (auto simp: py_word_def handle_parts_def cmd_helo_def)

lemma login_pass:
  assumes "current_user ss = Some u" "accounts srv u = Some a" "password a = p" "py_word u" "py_word p"
  shows "handle_event (Recv (''PASS '' @ p)) srv ss =
    (Continue, [OK], log_ev (peer ss) (LoginSuccess u) srv, ss)"
  using assms py_split_single [of p]
  unfolding handle_event_client_cmds(2) by (auto simp: py_word_def handle_parts_def cmd_pass_def)

text \<open>The three exchanges of a successful session, with the states they leave.\<close>

lemma login_run:
  assumes "alive cl" "lconn l = Open" "accounts (lsrv l) u = Some a" "password a = p" "py_word u" "py_word p"
  shows "login server_exch u p cl l =
      Some (Ret (), [], cl\<lparr>cur_user := Some u, screen := MainScreen, panel := False,
        status_text := status_text cl @ [(TryLogin u, TagSys), (Sent (''HELO '' @ u), TagSend),
          (Received AUTH_REQUIRE, TagRecv), (Sent (''PASS '' @ p), TagSend), (Received OK, TagRecv),
          (LoggedIn (Some u), TagSys)]\<rparr>,
        l\<lparr>lsrv := log_ev (peer (lss l)) (LoginSuccess u) (log_ev (peer (lss l)) (AuthRequired u) (lsrv l)),
          lss := (lss l)\<lparr>current_user := Some u\<rparr>, lconn := Open\<rparr>)"
proof -
  let ?l1 = "l\<lparr>lsrv := log_ev (peer (lss l)) (AuthRequired u) (lsrv l),
                lss := (lss l)\<lparr>current_user := Some u\<rparr>, lconn := Open\<rparr>"
  let ?l2 = "?l1\<lparr>lsrv := log_ev (peer (lss l)) (LoginSuccess u) (lsrv ?l1), lss := lss ?l1, lconn := Open\<rparr>"
  have e1: "server_exch (''HELO '' @ u) l = (Reply AUTH_REQUIRE, ?l1)"
    using server_exch_open [OF assms(2) login_helo [OF assms(3,5)]] by (simp add: first_reply_def)
  have "handle_event (Recv (''PASS '' @ p)) (lsrv ?l1) (lss ?l1) =
      (Continue, [OK], lsrv ?l2, lss ?l1)"
    using login_pass [of "lss ?l1" u "lsrv ?l1" a p] assms by simp
  hence e2: "server_exch (''PASS '' @ p) ?l1 = (Reply OK, ?l2)"
    using server_exch_open [of ?l1] by (simp add: first_reply_def)
  show ?thesis
    unfolding login_def using assms(1)
    by (simp add: cb_eval send_command_reply e1 [simplified append_Cons append_Nil]
        e2 [simplified append_Cons append_Nil] reply_defs)
qed

text \<open>
  A user id with a space: \<open>split()\<close> hands \<open>cmd_helo\<close> only its first word,
  while the client keeps the whole text as its user.
\<close>

lemma helo_first_word:
  assumes "accounts srv w = Some a" "py_word w"
  shows "handle_event (Recv (''HELO '' @ w @ CHR '' '' # rest)) srv ss =
    (Continue, [AUTH_REQUIRE], log_ev (peer ss) (AuthRequired w) srv, ss\<lparr>current_user := Some w\<rparr>)"
  using assms py_split_word [of w "CHR '' ''" rest]
  unfolding handle_event_client_cmds(1) by (auto simp: py_word_def py_isspace_def handle_parts_def cmd_helo_def)

lemma login_run_as:
  assumes "alive cl" "lconn l = Open" "accounts (lsrv l) w = Some a" "password a = p" "py_word w" "py_word p"
    and helo: "handle_event (Recv (''HELO '' @ u)) (lsrv l) (lss l) =
      (Continue, [AUTH_REQUIRE], log_ev (peer (lss l)) (AuthRequired w) (lsrv l), (lss l)\<lparr>current_user := Some w\<rparr>)"
  shows "login server_exch u p cl l =
      Some (Ret (), [], cl\<lparr>cur_user := Some u, screen := MainScreen, panel := False,
        status_text := status_text cl @ [(TryLogin u, TagSys), (Sent (''HELO '' @ u), TagSend),
          (Received AUTH_REQUIRE, TagRecv), (Sent (''PASS '' @ p), TagSend), (Received OK, TagRecv),
          (LoggedIn (Some u), TagSys)]\<rparr>,
        l\<lparr>lsrv := log_ev (peer (lss l)) (LoginSuccess w) (log_ev (peer (lss l)) (AuthRequired w) (lsrv l)),
          lss := (lss l)\<lparr>current_user := Some w\<rparr>, lconn := Open\<rparr>)"
proof -
  let ?l1 = "l\<lparr>lsrv := log_ev (peer (lss l)) (AuthRequired w) (lsrv l),
                lss := (lss l)\<lparr>current_user := Some w\<rparr>, lconn := Open\<rparr>"
  let ?l2 = "?l1\<lparr>lsrv := log_ev (peer (lss l)) (LoginSuccess w) (lsrv ?l1), lss := lss ?l1, lconn := Open\<rparr>"
  have e1: "server_exch (''HELO '' @ u) l = (Reply AUTH_REQUIRE, ?l1)"
    using server_exch_open [OF assms(2) helo] by (simp add: first_reply_def)
  have "handle_event (Recv (''PASS '' @ p)) (lsrv ?l1) (lss ?l1) =
      (Continue, [OK], lsrv ?l2, lss ?l1)"
    using login_pass [of "lss ?l1" w "lsrv ?l1" a p] assms by simp
  hence e2: "server_exch (''PASS '' @ p) ?l1 = (Reply OK, ?l2)"
    using server_exch_open [of ?l1] by (simp add: first_reply_def)
  show ?thesis
    unfolding login_def using assms(1)
    by (simp add: cb_eval send_command_reply e1 [simplified append_Cons append_Nil]
        e2 [simplified append_Cons append_Nil] reply_defs)
qed

lemma withdraw_run:
  assumes "alive cl" "lconn l = Open" "current_user (lss l) = Some u" "accounts (lsrv l) u = Some a"
    "py_float amt = Inr x" "py_ge (balance a) x" "fs (lsrv l) = FsOk"
  shows "withdraw server_exch amt cl l =
      Some (Ret (), [InfoWithdrawn x], cl\<lparr>status_text := status_text cl @ [(TryWithdraw amt, TagSend),
        (Sent (''WDRA '' @ amt), TagSend), (Received OK, TagRecv), (WithdrawDone, TagRecv)]\<rparr>,
        l\<lparr>lsrv := log_ev (peer (lss l)) (WithdrawOk u x)
          ((lsrv l)\<lparr>accounts := debit (accounts (lsrv l)) u x, disk := Json (debit (accounts (lsrv l)) u x)\<rparr>),
          lconn := Open\<rparr>)"
proof -
  let ?accs = "debit (accounts (lsrv l)) u x"
  let ?srv = "log_ev (peer (lss l)) (WithdrawOk u x) ((lsrv l)\<lparr>accounts := ?accs, disk := Json ?accs\<rparr>)"
  have "handle_event (Recv (''WDRA '' @ amt)) (lsrv l) (lss l) = (Continue, [OK], ?srv, lss l)"
    using assms(3-7) unfolding handle_event_wdra [OF assms(5)] by (simp add: wdra_locked_def Let_def)
  hence e: "server_exch (''WDRA '' @ amt) l = (Reply OK, l\<lparr>lsrv := ?srv, lss := lss l, lconn := Open\<rparr>)"
    using server_exch_open [OF assms(2)] by (simp add: first_reply_def)
  show ?thesis
    unfolding withdraw_def using assms(1,5)
    by (simp add: cb_eval send_command_reply e [simplified append_Cons append_Nil] reply_defs)
qed

lemma check_balance_run:
  assumes "alive cl" "lconn l = Open" "current_user (lss l) = Some u" "u \<noteq> []" "accounts (lsrv l) u = Some a"
    "exact_num (balance a)"
  shows "check_balance server_exch cl l =
      Some (Ret (), [InfoBalance (to_float (balance a))], cl\<lparr>status_text := status_text cl @
        [(QueryBalance, TagSys), (Sent ''BALA'', TagSend), (Received (AMNT (balance a)), TagRecv),
         (BalanceOk, TagRecv)]\<rparr>,
        l\<lparr>lsrv := log_ev (peer (lss l)) (BalanceChecked u) (lsrv l), lconn := Open\<rparr>)"
proof -
  let ?srv = "log_ev (peer (lss l)) (BalanceChecked u) (lsrv l)"
  have "handle_event (Recv ''BALA'') (lsrv l) (lss l) = (Continue, [AMNT (balance a)], ?srv, lss l)"
    using assms(3-5) by (simp add: handle_event_client_cmds(4) cmd_bala_def del: handle_event.simps)
  hence e: "server_exch ''BALA'' l = (Reply (AMNT (balance a)), l\<lparr>lsrv := ?srv, lss := lss l, lconn := Open\<rparr>)"
    using server_exch_open [OF assms(2)] by (simp add: first_reply_def)
  have f: "py_float (py_split_sep CHR '':'' (AMNT (balance a)) ! 1) = Inr (to_float (balance a))"
    using amnt_field [OF colon_not_in_str_num [OF assms(6)]] float_str_num [OF assms(6)]
    by (simp add: AMNT_def)
  have t: "take 5 (AMNT (balance a)) = ''AMNT:''" by (simp add: AMNT_def)
  show ?thesis
    unfolding check_balance_def using assms(1) f t by (simp add: cb_eval send_command_reply e)
qed

text \<open>
  C7: a user who types an existing id and its password, both single
  words, is logged in: the client shows its main screen with that user and
  no dialog, the status bar shows the two exchanges, and the handler's session
  is bound to the account, the connection still open and the ledger unchanged.
\<close>

theorem login_end_to_end:
  assumes "alive cl" "lconn l = Open" "accounts (lsrv l) u = Some a" "password a = p" "py_word u" "py_word p"
  shows "\<exists>l'. login server_exch u p cl l =
      Some (Ret (), [], cl\<lparr>cur_user := Some u, screen := MainScreen, panel := False,
        status_text := status_text cl @ [(TryLogin u, TagSys), (Sent (''HELO '' @ u), TagSend),
          (Received AUTH_REQUIRE, TagRecv), (Sent (''PASS '' @ p), TagSend), (Received OK, TagRecv),
          (LoggedIn (Some u), TagSys)]\<rparr>, l') \<and>
    lconn l' = Open \<and> current_user (lss l') = Some u \<and> accounts (lsrv l') = accounts (lsrv l)"
  using login_run [OF assms] by simp

theorem login_end_to_end_witness:
  "alive init_client \<and> lconn (init_link demo_srv 0) = Open \<and>
   accounts (lsrv (init_link demo_srv 0)) ''alice'' = Some alice_acct \<and>
   password alice_acct = ''secret'' \<and> py_word ''alice'' \<and> py_word ''secret'' \<and>
   (\<exists>l'. login server_exch ''alice'' ''secret'' init_client (init_link demo_srv 0) =
      Some (Ret (), [], init_client\<lparr>cur_user := Some ''alice'', screen := MainScreen, panel := False,
        status_text := status_text init_client @ [(TryLogin ''alice'', TagSys),
          (Sent ''HELO alice'', TagSend), (Received AUTH_REQUIRE, TagRecv),
          (Sent ''PASS secret'', TagSend), (Received OK, TagRecv),
          (LoggedIn (Some ''alice''), TagSys)]\<rparr>, l') \<and>
    lconn l' = Open \<and> current_user (lss l') = Some ''alice'' \<and> accounts (lsrv l') = accounts demo_srv)"
proof -
  have h: "alive init_client \<and> lconn (init_link demo_srv 0) = Open \<and>
     accounts (lsrv (init_link demo_srv 0)) ''alice'' = Some alice_acct \<and>
     password alice_acct = ''secret'' \<and> py_word ''alice'' \<and> py_word ''secret''"
    by (simp add: init_client_def init_link_def demo_defs py_word_def py_isspace_def)
  with login_end_to_end [of init_client "init_link demo_srv 0" "''alice''" alice_acct "''secret''"]
  show ?thesis by (simp add: init_link_def)
qed

text \<open>
  C8: a logged-in user who types an amount \<open>float()\<close> accepts and
  the balance covers gets the success dialog for that amount; the handler has
  debited the account, written the new ledger to the file and kept the
  connection open.
\<close>

theorem withdraw_end_to_end:
  assumes "alive cl" "lconn l = Open" "current_user (lss l) = Some u" "accounts (lsrv l) u = Some a"
    "py_float amt = Inr x" "py_ge (balance a) x" "fs (lsrv l) = FsOk"
  shows "\<exists>l'. withdraw server_exch amt cl l =
      Some (Ret (), [InfoWithdrawn x], cl\<lparr>status_text := status_text cl @ [(TryWithdraw amt, TagSend),
        (Sent (''WDRA '' @ amt), TagSend), (Received OK, TagRecv), (WithdrawDone, TagRecv)]\<rparr>, l') \<and>
    lconn l' = Open \<and> lss l' = lss l \<and> accounts (lsrv l') = debit (accounts (lsrv l)) u x \<and>
    load_accounts (disk (lsrv l')) = Inr (accounts (lsrv l'))"
  using withdraw_run [OF assms] by simp

theorem withdraw_end_to_end_witness:
  "alive init_client \<and> lconn \<lparr>lsrv = demo_srv, lss = alice_ss, lconn = Open\<rparr> = Open \<and>
   current_user alice_ss = Some ''alice'' \<and>
   accounts demo_srv ''alice'' = Some alice_acct \<and> py_float ''40'' = Inr (Fin 40) \<and>
   py_ge (balance alice_acct) (Fin 40) \<and> fs demo_srv = FsOk \<and>
   (\<exists>l'. withdraw server_exch ''40'' init_client \<lparr>lsrv = demo_srv, lss = alice_ss, lconn = Open\<rparr> =
      Some (Ret (), [InfoWithdrawn (Fin 40)], init_client\<lparr>status_text := status_text init_client @
        [(TryWithdraw ''40'', TagSend), (Sent ''WDRA 40'', TagSend), (Received OK, TagRecv),
         (WithdrawDone, TagRecv)]\<rparr>, l') \<and> lconn l' = Open \<and> lss l' = alice_ss \<and>
    accounts (lsrv l') = debit (accounts demo_srv) ''alice'' (Fin 40) \<and>
    load_accounts (disk (lsrv l')) = Inr (accounts (lsrv l')))"
proof -
  have h: "alive init_client \<and> current_user alice_ss = Some ''alice'' \<and>
     accounts demo_srv ''alice'' = Some alice_acct \<and>
     py_float ''40'' = Inr (Fin 40) \<and> py_ge (balance alice_acct) (Fin 40) \<and> fs demo_srv = FsOk"
    by (simp add: init_client_def demo_defs py_float_eval py_ge_def)
  with withdraw_end_to_end [of init_client "\<lparr>lsrv = demo_srv, lss = alice_ss, lconn = Open\<rparr>" "''alice''"
      alice_acct "''40''" "Fin 40"]
  show ?thesis by simp
qed

text \<open>
  C12: a logged-in client that clicks the balance button is shown
  exactly the balance the ledger holds (when it has a finite decimal
  expansion, as every amount read from text has): the server prints it after
  \<open>AMNT:\<close>, the client splits at \<open>:\<close> and reads it back with \<open>float()\<close>.
\<close>

theorem check_balance_end_to_end:
  assumes "alive cl" "lconn l = Open" "current_user (lss l) = Some u" "u \<noteq> []" "accounts (lsrv l) u = Some a"
    "exact_num (balance a)"
  shows "\<exists>l'. check_balance server_exch cl l =
      Some (Ret (), [InfoBalance (to_float (balance a))], cl\<lparr>status_text := status_text cl @
        [(QueryBalance, TagSys), (Sent ''BALA'', TagSend), (Received (AMNT (balance a)), TagRecv),
         (BalanceOk, TagRecv)]\<rparr>, l') \<and>
    lconn l' = Open \<and> lss l' = lss l \<and> accounts (lsrv l') = accounts (lsrv l)"
  using check_balance_run [OF assms] by simp

theorem check_balance_end_to_end_witness:
  "alive init_client \<and> lconn \<lparr>lsrv = demo_srv, lss = alice_ss, lconn = Open\<rparr> = Open \<and>
   current_user alice_ss = Some ''alice'' \<and>
   ''alice'' \<noteq> [] \<and> accounts demo_srv ''alice'' = Some alice_acct \<and> exact_num (balance alice_acct) \<and>
   (\<exists>l'. check_balance server_exch init_client \<lparr>lsrv = demo_srv, lss = alice_ss, lconn = Open\<rparr> =
      Some (Ret (), [InfoBalance (to_float (balance alice_acct))], init_client\<lparr>status_text :=
        status_text init_client @ [(QueryBalance, TagSys), (Sent ''BALA'', TagSend),
          (Received (AMNT (balance alice_acct)), TagRecv), (BalanceOk, TagRecv)]\<rparr>, l') \<and>
    lconn l' = Open \<and> lss l' = alice_ss \<and> accounts (lsrv l') = accounts demo_srv)"
proof -
  have h: "alive init_client \<and> current_user alice_ss = Some ''alice'' \<and>
     accounts demo_srv ''alice'' = Some alice_acct"
    by (simp add: init_client_def demo_defs)
  have x: "exact_num (balance alice_acct)" unfolding demo_defs by code_simp
  from h x check_balance_end_to_end [of init_client "\<lparr>lsrv = demo_srv, lss = alice_ss, lconn = Open\<rparr>"
      "''alice''" alice_acct]
  show ?thesis by simp
qed

text \<open>
  C9: the client's check of a withdrawal amount agrees with the
  server's parse: for every entry \<open>float()\<close> accepts, the chunk
  \<open>WDRA entry\<close> splits into exactly the command and the stripped entry, the
  handler parses that to the same value, and runs the locked withdrawal with
  it.
\<close>

theorem client_amount_agrees:
  assumes "py_float a = Inr x"
  shows "py_split (py_strip (''WDRA '' @ a)) = [''WDRA'', py_strip a] \<and>
    Concurrency.wdra_amount (Recv (''WDRA '' @ a)) = Some x \<and>
    handle_event (Recv (''WDRA '' @ a)) srv ss = wdra_locked x srv ss"
proof -
  have p: "py_split (py_strip (''WDRA '' @ a)) = [''WDRA'', py_strip a]"
    using py_split_cmd [of "''WDRA''" a] py_split_float_arg [OF assms] by simp
  have "Concurrency.wdra_amount (Recv (''WDRA '' @ a)) = Some x"
    unfolding wdra_amount_def recv_event.case p using assms by (simp add: py_float_strip)
  with p show ?thesis using handle_event_wdra [OF assms] by blast
qed

theorem client_amount_agrees_witness:
  "py_float '' 2.5e1 '' = Inr (Fin 25) \<and>
   py_split (py_strip ''WDRA  2.5e1 '') = [''WDRA'', ''2.5e1''] \<and>
   Concurrency.wdra_amount (Recv ''WDRA  2.5e1 '') = Some (Fin 25) \<and>
   handle_event (Recv ''WDRA  2.5e1 '') demo_srv alice_ss = wdra_locked (Fin 25) demo_srv alice_ss"
proof -
  have h: "py_float '' 2.5e1 '' = Inr (Fin 25)"
    by (simp add: py_float_eval)
  have s: "py_strip '' 2.5e1 '' = ''2.5e1''"
    by (simp add: py_strip_def py_isspace_def)
  from client_amount_agrees [OF h, of demo_srv alice_ss] h s show ?thesis by simp
qed

text \<open>
  C21: a user id typed as an existing id followed by a space and
  anything else, with that account's password, logs the window in under the
  whole text, while the handler binds the session to the first word only:
  the window shows the typed text as its user and its balance dialog shows
  the balance of the first word's account.
\<close>

theorem login_binds_first_word:
  assumes "alive cl" "lconn l = Open" "accounts (lsrv l) w = Some a" "password a = p" "py_word w" "py_word p"
    "exact_num (balance a)"
  shows "\<exists>cl' l' cl'' l''. login server_exch (w @ CHR '' '' # rest) p cl l = Some (Ret (), [], cl', l') \<and>
    cur_user cl' = Some (w @ CHR '' '' # rest) \<and> screen cl' = MainScreen \<and>
    current_user (lss l') = Some w \<and> lconn l' = Open \<and>
    check_balance server_exch cl' l' = Some (Ret (), [InfoBalance (to_float (balance a))], cl'', l'')"
proof -
  let ?u = "w @ CHR '' '' # rest"
  have w: "w \<noteq> []" using assms(5) by (simp add: py_word_def)
  note r = login_run_as [OF assms(1-6) helo_first_word [OF assms(3,5)]]
  show ?thesis
    using r check_balance_run [OF _ _ _ w _ assms(7)] assms(1,3) by (simp add: log_ev_def)
qed

theorem login_binds_first_word_witness:
  "alive init_client \<and> lconn (init_link demo_srv 0) = Open \<and>
   accounts (lsrv (init_link demo_srv 0)) ''alice'' = Some alice_acct \<and>
   password alice_acct = ''secret'' \<and> py_word ''alice'' \<and> py_word ''secret'' \<and>
   exact_num (balance alice_acct) \<and>
   (\<exists>cl' l' cl'' l''. login server_exch (''alice'' @ CHR '' '' # ''bob'') ''secret'' init_client (init_link demo_srv 0) =
      Some (Ret (), [], cl', l') \<and>
    cur_user cl' = Some (''alice'' @ CHR '' '' # ''bob'') \<and> screen cl' = MainScreen \<and>
    current_user (lss l') = Some ''alice'' \<and> lconn l' = Open \<and>
    check_balance server_exch cl' l' = Some (Ret (), [InfoBalance (to_float (balance alice_acct))], cl'', l''))"
proof -
  have h: "alive init_client \<and> lconn (init_link demo_srv 0) = Open \<and>
     accounts (lsrv (init_link demo_srv 0)) ''alice'' = Some alice_acct \<and>
     password alice_acct = ''secret'' \<and> py_word ''alice'' \<and> py_word ''secret''"
    by (simp add: init_client_def init_link_def demo_defs py_word_def py_isspace_def)
  have x: "exact_num (balance alice_acct)" unfolding demo_defs by code_simp
  from h x login_binds_first_word [of init_client "init_link demo_srv 0" "''alice''" alice_acct "''secret''" "''bob''"]
  show ?thesis by blast
qed

section \<open>What the client cannot recover from\<close>

text \<open>
  After the handler has closed the connection the window gets one more
  \<open>b''\<close>, shown as \<open>invalid username\<close>, and then the connection error, after
  which the window is destroyed and the callback dies with \<open>TclError\<close>.
\<close>

lemma logins_after_close:
  assumes "lconn l = PeerClosed"
  shows "(\<forall>cl2. alive cl2 \<longrightarrow> login server_exch u2 p2 cl2 l =
      Some (Ret (), [ErrBadUser], cl2\<lparr>status_text := status_text cl2 @ [(TryLogin u2, TagSys),
        (Sent (''HELO '' @ u2), TagSend), (Received [], TagRecv), (BadUser, TagError)]\<rparr>, l\<lparr>lconn := Broken\<rparr>)) \<and>
    (\<forall>cl3. alive cl3 \<longrightarrow> (\<exists>cl4. login server_exch u3 p3 cl3 (l\<lparr>lconn := Broken\<rparr>) =
      Some (Raise TclError, [ErrConnection], cl4, l\<lparr>lconn := Broken\<rparr>) \<and> \<not> alive cl4))"
  using assms login_peer_closed [of _ l] login_broken [of _ "l\<lparr>lconn := Broken\<rparr>"] by simp

lemma logout_open:
  assumes "alive cl" "lconn l = Open" "logout server_exch cl l = Some (y, ds, cl', l')"
  shows "lconn l' = PeerClosed \<and> alive cl' \<and> cur_user cl' = None \<and> screen cl' = LoginScreen"
proof -
  have "handle_event (Recv ''BYE'') (lsrv l) (lss l) =
      (Break, [BYE], log_ev (peer (lss l)) (SessionEnded (current_user (lss l))) (lsrv l), lss l)"
    by (simp add: handle_event_client_cmds(5) cmd_bye_def del: handle_event.simps)
  then have e: "server_exch ''BYE'' l =
      (Reply BYE, l\<lparr>lsrv := log_ev (peer (lss l)) (SessionEnded (current_user (lss l))) (lsrv l),
         lss := lss l, lconn := PeerClosed\<rparr>)"
    using server_exch_open [OF assms(2)] by (simp add: first_reply_def)
  with assms(1,3) show ?thesis by (auto simp: logout_def cb_eval send_command_reply)
qed

text \<open>
  C11: \<open>logout\<close> sends \<open>BYE\<close>, on which the handler closes the
  connection, but keeps the socket and shows the login screen; the next login
  on that window fails with \<open>invalid username\<close>, whatever the id and password,
  and the login after it with the connection error, which destroys the window.
\<close>

theorem logout_then_login_fails:
  assumes "alive cl" "lconn l = Open" "logout server_exch cl l = Some (y, ds, cl', l')"
  shows "alive cl' \<and> screen cl' = LoginScreen \<and>
    login server_exch u p cl' l' =
      Some (Ret (), [ErrBadUser], cl'\<lparr>status_text := status_text cl' @ [(TryLogin u, TagSys),
        (Sent (''HELO '' @ u), TagSend), (Received [], TagRecv), (BadUser, TagError)]\<rparr>, l'\<lparr>lconn := Broken\<rparr>) \<and>
    (\<forall>cl3. alive cl3 \<longrightarrow> (\<exists>cl4. login server_exch u3 p3 cl3 (l'\<lparr>lconn := Broken\<rparr>) =
      Some (Raise TclError, [ErrConnection], cl4, l'\<lparr>lconn := Broken\<rparr>) \<and> \<not> alive cl4))"
  using logout_open [OF assms] logins_after_close [of l' u p u3 p3] by simp

theorem logout_then_login_fails_witness:
  "alive init_client \<and> lconn (init_link demo_srv 0) = Open \<and>
   logout server_exch init_client (init_link demo_srv 0) =
     Some (Ret (), [], init_client\<lparr>status_text := status_text init_client @ [(LoggingOut, TagSys),
         (Sent ''BYE'', TagSend), (Received BYE, TagRecv), (LoginShown, TagSys)]\<rparr>,
       \<lparr>lsrv = log_ev 0 (SessionEnded None) demo_srv, lss = \<lparr>peer = 0, current_user = None\<rparr>,
        lconn = PeerClosed\<rparr>) \<and>
   alive (init_client\<lparr>status_text := status_text init_client @ [(LoggingOut, TagSys),
         (Sent ''BYE'', TagSend), (Received BYE, TagRecv), (LoginShown, TagSys)]\<rparr>) \<and>
   login server_exch ''alice'' ''secret''
     (init_client\<lparr>status_text := status_text init_client @ [(LoggingOut, TagSys),
         (Sent ''BYE'', TagSend), (Received BYE, TagRecv), (LoginShown, TagSys)]\<rparr>)
     \<lparr>lsrv = log_ev 0 (SessionEnded None) demo_srv, lss = \<lparr>peer = 0, current_user = None\<rparr>,
      lconn = PeerClosed\<rparr> =
     Some (Ret (), [ErrBadUser], init_client\<lparr>status_text := status_text init_client @ [(LoggingOut, TagSys),
         (Sent ''BYE'', TagSend), (Received BYE, TagRecv), (LoginShown, TagSys),
         (TryLogin ''alice'', TagSys), (Sent ''HELO alice'', TagSend), (Received [], TagRecv),
         (BadUser, TagError)]\<rparr>,
       \<lparr>lsrv = log_ev 0 (SessionEnded None) demo_srv, lss = \<lparr>peer = 0, current_user = None\<rparr>,
        lconn = Broken\<rparr>) \<and>
   (\<exists>cl4. login server_exch ''alice'' ''secret'' init_client
       \<lparr>lsrv = log_ev 0 (SessionEnded None) demo_srv, lss = \<lparr>peer = 0, current_user = None\<rparr>, lconn = Broken\<rparr> =
     Some (Raise TclError, [ErrConnection], cl4,
       \<lparr>lsrv = log_ev 0 (SessionEnded None) demo_srv, lss = \<lparr>peer = 0, current_user = None\<rparr>, lconn = Broken\<rparr>) \<and>
     \<not> alive cl4)"
proof -
  have a: "alive init_client" "lconn (init_link demo_srv 0) = Open" by (simp_all add: init_client_def init_link_def)
  have h: "logout server_exch init_client (init_link demo_srv 0) =
     Some (Ret (), [], init_client\<lparr>status_text := status_text init_client @ [(LoggingOut, TagSys),
         (Sent ''BYE'', TagSend), (Received BYE, TagRecv), (LoginShown, TagSys)]\<rparr>,
       \<lparr>lsrv = log_ev 0 (SessionEnded None) demo_srv, lss = \<lparr>peer = 0, current_user = None\<rparr>,
        lconn = PeerClosed\<rparr>)"
    by (simp add: logout_def cb_eval send_command_alive server_exch_def handle_event_client cmd_bye_def
        first_reply_def BYE_def init_link_def init_client_def del: handle_event.simps)
  from logout_then_login_fails [OF a h, of "''alice''" "''secret''" "''alice''" "''secret''"] a h
  show ?thesis by simp
qed

text \<open>
  C20: a login with an empty or all-blank user id makes the handler raise
  \<open>IndexError\<close> on \<open>parts[1]\<close> and close the connection; the client shows
  \<open>invalid username\<close>, the next login on that window fails the same way, and
  every login after it with the connection error, which destroys the window.
\<close>

theorem blank_username_closes:
  assumes "alive cl" "list_all py_isspace u" "lconn l = Open"
  shows "\<exists>l'. login server_exch u p cl l =
      Some (Ret (), [ErrBadUser], cl\<lparr>status_text := status_text cl @ [(TryLogin u, TagSys),
        (Sent (''HELO '' @ u), TagSend), (Received [], TagRecv), (BadUser, TagError)]\<rparr>, l') \<and>
    lconn l' = PeerClosed \<and>
    (\<forall>cl2. alive cl2 \<longrightarrow> login server_exch u2 p2 cl2 l' =
      Some (Ret (), [ErrBadUser], cl2\<lparr>status_text := status_text cl2 @ [(TryLogin u2, TagSys),
        (Sent (''HELO '' @ u2), TagSend), (Received [], TagRecv), (BadUser, TagError)]\<rparr>, l'\<lparr>lconn := Broken\<rparr>)) \<and>
    (\<forall>cl3. alive cl3 \<longrightarrow> (\<exists>cl4. login server_exch u3 p3 cl3 (l'\<lparr>lconn := Broken\<rparr>) =
      Some (Raise TclError, [ErrConnection], cl4, l'\<lparr>lconn := Broken\<rparr>) \<and> \<not> alive cl4))"
proof -
  have "handle_event (Recv (''HELO '' @ u)) (lsrv l) (lss l) = (Raised IndexError, [], lsrv l, lss l)"
    unfolding handle_event_client_cmds(1) using py_split_spaces [OF assms(2)]
    by (simp add: handle_parts_def cmd_helo_def)
  hence e: "server_exch (''HELO '' @ u) l = (Reply [], l\<lparr>lsrv := lsrv l, lss := lss l, lconn := PeerClosed\<rparr>)"
    using server_exch_open [OF assms(3)] by (simp add: first_reply_def)
  have "login server_exch u p cl l =
      Some (Ret (), [ErrBadUser], cl\<lparr>status_text := status_text cl @ [(TryLogin u, TagSys),
        (Sent (''HELO '' @ u), TagSend), (Received [], TagRecv), (BadUser, TagError)]\<rparr>, l\<lparr>lconn := PeerClosed\<rparr>)"
    unfolding login_def using assms(1)
    by (simp add: cb_eval send_command_reply e [simplified append_Cons append_Nil])
  then show ?thesis using logins_after_close [of "l\<lparr>lconn := PeerClosed\<rparr>" u2 p2 u3 p3] by simp
qed

theorem blank_username_closes_witness:
  "alive init_client \<and> list_all py_isspace '''' \<and> lconn (init_link demo_srv 0) = Open \<and>
   (\<exists>l'. login server_exch '''' '''' init_client (init_link demo_srv 0) =
      Some (Ret (), [ErrBadUser], init_client\<lparr>status_text := status_text init_client @
        [(TryLogin '''', TagSys), (Sent ''HELO '', TagSend), (Received [], TagRecv), (BadUser, TagError)]\<rparr>, l') \<and>
    lconn l' = PeerClosed \<and>
    (\<forall>cl2. alive cl2 \<longrightarrow> login server_exch ''alice'' ''secret'' cl2 l' =
      Some (Ret (), [ErrBadUser], cl2\<lparr>status_text := status_text cl2 @ [(TryLogin ''alice'', TagSys),
        (Sent ''HELO alice'', TagSend), (Received [], TagRecv), (BadUser, TagError)]\<rparr>, l'\<lparr>lconn := Broken\<rparr>)) \<and>
    (\<forall>cl3. alive cl3 \<longrightarrow> (\<exists>cl4. login server_exch ''alice'' ''secret'' cl3 (l'\<lparr>lconn := Broken\<rparr>) =
      Some (Raise TclError, [ErrConnection], cl4, l'\<lparr>lconn := Broken\<rparr>) \<and> \<not> alive cl4)))"
  using blank_username_closes [of init_client "''''" "init_link demo_srv 0" "''''" "''alice''" "''secret''"
      "''alice''" "''secret''"]
  by (simp add: init_client_def init_link_def)

end
