(* ===== verification/Exact.thy ===== *)
theory Exact
  imports Concurrency Repr
begin

text \<open>
  Every balance the server can reach has a finite decimal expansion, so the
  \<open>AMNT:\<close> reply prints it in a form \<open>float()\<close> reads back exactly.  A
  balance changes only by \<open>balance -= amount\<close> (src/code/server.py line 71)
  with an amount \<open>float(parts[1])\<close> read from text (line 68); the amounts
  \<open>float()\<close> accepts are decimals, and decimals are closed under
  subtraction.  The invariant \<open>exact_sys\<close> is proved for every reachable
  state of the threads of \<open>Concurrency\<close>, and every step of the
  sequential handler keeps the ledger exact (\<open>handle_event_exact\<close>).
\<close>

section \<open>Exact values\<close>

text \<open>A float that \<open>repr\<close> prints exactly: a decimal, an infinity or \<open>nan\<close>.\<close>

definition exact_float :: "pyfloat \<Rightarrow> bool" where
  "exact_float x = (case x of Fin q \<Rightarrow> is_decimal q | _ \<Rightarrow> True)"

definition exact_ledger :: "ledger \<Rightarrow> bool" where
  "exact_ledger l \<longleftrightarrow> (\<forall>u a. l u = Some a \<longrightarrow> exact_num (balance a))"

text \<open>The amounts and balances a thread carries inside \<open>with self.lock:\<close>.\<close>

fun exact_phase :: "phase \<Rightarrow> bool" where
  "exact_phase (Locked amt) = exact_float amt"
| "exact_phase (Checked u amt) = exact_float amt"
| "exact_phase (Loaded u amt b) = (exact_float amt \<and> exact_num b)"
| "exact_phase (Stored u amt) = exact_float amt"
| "exact_phase _ = True"

definition exact_sys :: "sys \<Rightarrow> bool" where
  "exact_sys s \<longleftrightarrow> exact_ledger (accounts (shared s)) \<and>
     (\<forall>t th. thr s t = Some th \<longrightarrow> exact_phase (phase th))"

section \<open>Decimals\<close>

lemma mult_of_dvd: "p ^ mult_of p n dvd n"
proof (induction p n rule: mult_of.induct)
  case (1 p n)
  then show ?case
    by (subst mult_of.simps) (auto simp: dvd_div_iff_mult mult.commute elim!: dvdE)
qed

lemma mult_of_rest: "1 < p \<Longrightarrow> 0 < n \<Longrightarrow> \<not> p dvd n div p ^ mult_of p n"
proof (induction p n rule: mult_of.induct)
  case (1 p n)
  show ?case
  proof (cases "p dvd n")
    case False
    with 1 show ?thesis by (subst mult_of.simps) simp
  next
    case True
    then obtain m where m: "n = p * m" by blast
    with 1 have "0 < m" by simp
    with 1 True m have "\<not> p dvd m div p ^ mult_of p m" by simp
    with 1 True m \<open>0 < m\<close> show ?thesis
      by (subst mult_of.simps) (simp add: div_mult2_eq)
  qed
qed

lemma mult_of_le: "1 < p \<Longrightarrow> 0 < n \<Longrightarrow> p ^ b dvd n \<Longrightarrow> b \<le> mult_of p n"
proof (induction b arbitrary: n)
  case 0
  then show ?case by simp
next
  case (Suc b)
  then obtain m where m: "n = p * m" by (auto elim: dvdE simp: power_Suc)
  with Suc.prems have "0 < m" "p ^ b dvd m" by auto
  with Suc.IH [of m] Suc.prems have "b \<le> mult_of p m" by simp
  with Suc.prems m \<open>0 < m\<close> show ?case by (subst mult_of.simps) simp
qed

lemma divisors_2_5:
  "d dvd (2::nat) \<Longrightarrow> d = 1 \<or> d = 2"
  "d dvd (5::nat) \<Longrightarrow> d = 1 \<or> d = 5"
proof -
  assume a: "d dvd (2::nat)"
  have "d \<le> 2" using dvd_imp_le [OF a] by simp
  then have "d = 0 \<or> d = 1 \<or> d = 2" by presburger
  with a show "d = 1 \<or> d = 2" by auto
next
  assume a: "d dvd (5::nat)"
  have "d \<le> 5" using dvd_imp_le [OF a] by simp
  then have "d = 0 \<or> d = 1 \<or> d = 2 \<or> d = 3 \<or> d = 4 \<or> d = 5" by presburger
  with a show "d = 1 \<or> d = 5" by auto
qed
lemma coprime_2_5:
  assumes "\<not> p dvd n" "p = 2 \<or> p = (5::nat)"
  shows "coprime n (p ^ k)"
proof -
  have "gcd n p = 1 \<or> gcd n p = p" using divisors_2_5 [of "gcd n p"] assms(2) by auto
  moreover have "gcd n p \<noteq> p" using assms(1) by (metis gcd_dvd1)
  ultimately have "coprime n p" by (simp add: coprime_iff_gcd_eq_1)
  then show ?thesis by simp
qed

lemma dvd_pow10:
  assumes "0 < d" "d dvd (10::nat) ^ k"
  shows "d dvd 10 ^ max (mult_of 2 d) (mult_of 5 d)"
proof -
  define a where "a = mult_of 2 d"
  obtain d1 where d1: "d = 2 ^ a * d1" using mult_of_dvd [of 2 d] unfolding a_def by (auto elim: dvdE)
  have "0 < d1" using assms(1) d1 by (cases d1) auto
  have "d div 2 ^ a = d1" using d1 by simp
  hence "\<not> 2 dvd d1" using mult_of_rest [of 2 d] assms(1) unfolding a_def by simp
  have "d1 dvd 10 ^ k" using assms(2) d1 dvd_mult_right by metis
  moreover have "(10::nat) ^ k = 2 ^ k * 5 ^ k" by (simp flip: power_mult_distrib)
  ultimately have "d1 dvd 2 ^ k * 5 ^ k" by simp
  hence d15: "d1 dvd 5 ^ k"
    using coprime_2_5 [OF \<open>\<not> 2 dvd d1\<close>, of k] by (simp add: coprime_dvd_mult_right_iff)
  define b where "b = mult_of 5 d1"
  obtain d2 where d2: "d1 = 5 ^ b * d2" using mult_of_dvd [of 5 d1] unfolding b_def by (auto elim: dvdE)
  have "d1 div 5 ^ b = d2" using d2 by simp
  hence "\<not> 5 dvd d2" using mult_of_rest [of 5 d1] \<open>0 < d1\<close> unfolding b_def by simp
  have d25: "d2 dvd 5 ^ k" using d15 d2 dvd_mult_right by metis
  have "coprime d2 (5 ^ k)" using coprime_2_5 [OF \<open>\<not> 5 dvd d2\<close>] by simp
  with coprime_absorb_left [OF d25] have "is_unit d2" by blast
  hence d: "d = 2 ^ a * 5 ^ b" using d1 d2 by simp
  have "b \<le> mult_of 5 d" using mult_of_le [of 5 d b] assms(1) d by simp
  hence "2 ^ a * 5 ^ b dvd (2::nat) ^ max (mult_of 2 d) (mult_of 5 d) * 5 ^ max (mult_of 2 d) (mult_of 5 d)"
    unfolding a_def by (intro mult_dvd_mono le_imp_power_dvd) simp_all
  then show ?thesis using d by (simp flip: power_mult_distrib)
qed

lemma is_decimal_div_pow10: "is_decimal (of_int i / 10 ^ k)"
proof -
  let ?q = "of_int i / 10 ^ k :: rat"
  obtain n d where qd: "quotient_of ?q = (n, d)" by (cases "quotient_of ?q") auto
  have "d > 0" using qd quotient_of_denom_pos by blast
  have cop: "coprime n d" using qd quotient_of_coprime by blast
  have "?q = of_int n / of_int d" using qd quotient_of_div by blast
  hence "of_int (i * d) = (of_int (n * 10 ^ k) :: rat)" using \<open>d > 0\<close> by (simp add: field_simps)
  hence "i * d = n * 10 ^ k" by (simp only: of_int_eq_iff)
  hence "d dvd n * 10 ^ k" by (metis dvd_triv_right)
  hence "d dvd 10 ^ k" using cop by (simp add: coprime_dvd_mult_right_iff coprime_commute)
  hence "int (nat d) dvd int (10 ^ k)" using \<open>d > 0\<close> by simp
  hence "nat d dvd 10 ^ k" by (simp only: int_dvd_int_iff)
  hence "nat d dvd 10 ^ max (mult_of 2 (nat d)) (mult_of 5 (nat d))" using dvd_pow10 \<open>d > 0\<close> by simp
  hence "int (nat d) dvd int (10 ^ max (mult_of 2 (nat d)) (mult_of 5 (nat d)))" by (simp only: int_dvd_int_iff)
  then show ?thesis using \<open>d > 0\<close> qd by (simp add: is_decimal_def dec_places_def)
qed

lemma is_decimal_iff: "is_decimal q \<longleftrightarrow> (\<exists>i k. q = of_int i / 10 ^ k)"
proof
  assume "is_decimal q"
  then obtain i where "q * 10 ^ dec_places q = of_int i" by (rule is_decimal_int)
  hence "q = of_int i / 10 ^ dec_places q" by (simp add: field_simps)
  then show "\<exists>i k. q = of_int i / 10 ^ k" by blast
next
  assume "\<exists>i k. q = of_int i / 10 ^ k"
  then show "is_decimal q" using is_decimal_div_pow10 by blast
qed

lemma is_decimal_diff:
  assumes "is_decimal a" "is_decimal b"
  shows "is_decimal (a - b)"
proof -
  obtain i k j l where a: "a = of_int i / 10 ^ k" and b: "b = of_int j / 10 ^ l"
    using assms by (auto simp: is_decimal_iff)
  have "a - b = of_int (i * 10 ^ l - j * 10 ^ k) / 10 ^ (k + l)"
    unfolding a b by (simp add: field_simps power_add)
  then show ?thesis using is_decimal_div_pow10 [of "i * 10 ^ l - j * 10 ^ k" "k + l"] by simp
qed

lemma is_decimal_of_int [simp]: "is_decimal (of_int i)"
  using is_decimal_div_pow10 [of i 0] by simp

lemma is_decimal_uminus [simp]: "is_decimal (- q) \<longleftrightarrow> is_decimal q"
  using is_decimal_diff [of 0 q] is_decimal_diff [of 0 "- q"] by (auto simp: is_decimal_iff)

lemma is_decimal_powi: "is_decimal (of_nat n * 10 powi z)"
proof (cases "0 \<le> z")
  case True
  hence e: "of_nat n * (10::rat) powi z = of_int (int n * 10 ^ nat z)"
    by (simp add: power_int_def)
  show ?thesis unfolding e by (rule is_decimal_of_int)
next
  case False
  hence e: "of_nat n * (10::rat) powi z = of_int (int n) / 10 ^ nat (- z)"
    by (simp add: power_int_def field_simps power_inverse)
  show ?thesis unfolding e by (rule is_decimal_div_pow10)
qed

lemma parse_tail_decimal: "parse_tail ip fp r = Some q \<Longrightarrow> is_decimal q"
  by (auto simp: parse_tail_def dec_value_powi is_decimal_powi split: list.splits if_splits)

lemma parse_unsigned_decimal: "parse_unsigned s = Some q \<Longrightarrow> is_decimal q"
  by (auto simp: parse_unsigned_def split: option.splits list.splits if_splits prod.splits
      dest: parse_tail_decimal)

lemma py_float_exact: "py_float s = Inr x \<Longrightarrow> exact_float x"
  by (auto simp: py_float_def exact_float_def Let_def split: prod.splits option.splits if_splits
      dest: parse_unsigned_decimal)

lemma exact_num_py_sub: "exact_num b \<Longrightarrow> exact_float x \<Longrightarrow> exact_num (py_sub b x)"
  by (cases b; cases x) (auto simp: exact_num_def exact_float_def py_sub_def is_decimal_diff
      split: pyfloat.splits)

section \<open>Every reachable balance is exact\<close>

lemma wdra_amount_exact: "wdra_amount ev = Some amt \<Longrightarrow> exact_float amt"
  by (auto simp: wdra_amount_def split: recv_event.splits list.splits if_splits sum.splits
      dest: py_float_exact)

lemma exact_ledger_upd:
  "exact_ledger l \<Longrightarrow> exact_num (balance a) \<Longrightarrow> exact_ledger (l(u \<mapsto> a))"
  by (simp add: exact_ledger_def)

lemma exact_sys_set_thr:
  "exact_sys s \<Longrightarrow> exact_ledger (accounts srv) \<Longrightarrow> exact_phase (phase th) \<Longrightarrow>
     exact_sys (set_thr t th (s\<lparr>shared := srv, holder := h\<rparr>))"
  by (simp add: exact_sys_def)

lemma exact_sys_set_thr_same:
  "exact_sys s \<Longrightarrow> exact_phase (phase th) \<Longrightarrow> exact_sys (set_thr t th s)"
  "exact_sys s \<Longrightarrow> exact_phase (phase th) \<Longrightarrow> exact_sys (set_thr t th (s\<lparr>holder := h\<rparr>))"
  using exact_sys_set_thr [of s "shared s" th t "holder s"] exact_sys_set_thr [of s "shared s" th t h]
  by (simp_all add: exact_sys_def)

lemma exact_sys_set_thr_shared:
  "exact_sys s \<Longrightarrow> exact_ledger (accounts srv) \<Longrightarrow> exact_phase (phase th) \<Longrightarrow>
     exact_sys (set_thr t th (s\<lparr>shared := srv\<rparr>))"
  by (simp add: exact_sys_def)

lemma exact_sys_shared:
  "exact_sys s \<Longrightarrow> accounts srv = accounts (shared s) \<Longrightarrow> exact_sys (s\<lparr>shared := srv\<rparr>)"
  by (simp add: exact_sys_def)

lemma exact_sys_ledger: "exact_sys s \<Longrightarrow> exact_ledger (accounts (shared s))"
  by (simp add: exact_sys_def)

lemma exact_sys_balance: "exact_sys s \<Longrightarrow> accounts (shared s) u = Some a \<Longrightarrow> exact_num (balance a)"
  by (simp add: exact_sys_def exact_ledger_def)

lemma exact_sys_phase: "exact_sys s \<Longrightarrow> thr s t = Some th \<Longrightarrow> exact_phase (phase th)"
  by (simp add: exact_sys_def)

lemma exact_phase_after [simp]: "exact_phase (after fl) = True"
  by (cases fl) simp_all

lemma crash_in_lock_exact: "exact_sys s \<Longrightarrow> exact_sys (crash_in_lock t th e s)"
  by (simp add: crash_in_lock_def exact_sys_set_thr_same)

lemma cstep_exact: "cstep s s' \<Longrightarrow> exact_sys s \<Longrightarrow> exact_sys s'"
proof (induction rule: cstep.induct)
  case (accept s t evs)
  then show ?case by (simp add: exact_sys_set_thr_same new_thread_def)
next
  case (atomic s t th ev evs)
  obtain fl out srv' ss' where h: "handle_event ev (shared s) (sess th) = (fl, out, srv', ss')"
    by (cases "handle_event ev (shared s) (sess th)") auto
  have "accounts srv' = accounts (shared s)"
    using handle_event_readonly [OF atomic(4) h] by (simp add: readonly_def)
  with atomic.prems show ?case
    using exact_sys_set_thr [of s srv' _ t "holder s"] by (simp add: run_event_def h exact_sys_def)
next
  case (acquire s t th ev evs amt)
  then show ?case by (simp add: exact_sys_set_thr_same wdra_amount_exact)
next
  case (check s t th amt)
  have "exact_phase (phase th)" using exact_sys_phase [OF check.prems check(1)] .
  hence "exact_float amt" using check(2) by simp
  with check.prems show ?case
    by (auto simp: do_check_def crash_in_lock_exact exact_sys_set_thr_same split: option.splits)
next
  case (load s t th u amt)
  have "exact_phase (phase th)" using exact_sys_phase [OF load.prems load(1)] .
  hence amt: "exact_float amt" using load(2) by simp
  show ?case
  proof (cases "accounts (shared s) u")
    case None
    with load.prems show ?thesis by (simp add: do_load_def crash_in_lock_exact)
  next
    case (Some a)
    with load.prems amt show ?thesis
      by (simp add: do_load_def exact_sys_set_thr_same exact_sys_balance [OF load.prems Some])
  qed
next
  case (store s t th u amt b)
  have "exact_phase (phase th)" using exact_sys_phase [OF store.prems store(1)] .
  hence "exact_float amt" "exact_num b" using store(2) by simp_all
  with store.prems show ?case
    by (auto simp: do_store_def crash_in_lock_exact exact_num_py_sub
        intro!: exact_sys_set_thr_shared exact_ledger_upd exact_sys_ledger split: option.splits)
next
  case (save s t th u amt)
  then show ?case
    by (auto simp: do_save_def crash_in_lock_def log_ev_def
        intro!: exact_sys_set_thr exact_sys_set_thr_same exact_sys_ledger exact_sys_shared
        split: prod.splits sum.splits)
qed

lemma reach_exact: "reach srv0 s \<Longrightarrow> exact_ledger (accounts srv0) \<Longrightarrow> exact_sys s"
proof (induction rule: reach.induct)
  case init
  then show ?case by (simp add: exact_sys_def init_sys_def)
next
  case (step s s')
  then show ?case by (blast intro: cstep_exact)
qed

section \<open>Every handler step keeps the ledger exact\<close>

lemma handle_event_wdra_amount:
  assumes "wdra_amount ev = Some amt"
  shows "handle_event ev srv ss = wdra_locked amt srv ss"
  using assms
  by (auto simp: wdra_amount_def Let_def handle_parts_def cmd_wdra_def py_split_Nil
      split: recv_event.splits list.splits if_splits sum.splits)

lemma wdra_locked_exact:
  assumes "wdra_locked amt srv ss = (fl, out, srv', ss')" "exact_ledger (accounts srv)" "exact_float amt"
  shows "exact_ledger (accounts srv')"
proof -
  have d: "exact_ledger (debit (accounts srv) u amt)" for u
    using assms(2,3) by (auto simp: debit_def exact_ledger_def exact_num_py_sub split: option.splits)
  show ?thesis
    using assms(1,2) d by (auto simp: wdra_locked_def Let_def split: option.splits sum.splits if_splits prod.splits)
qed

lemma handle_event_exact:
  assumes "handle_event ev srv ss = (fl, out, srv', ss')" "exact_ledger (accounts srv)"
  shows "exact_ledger (accounts srv')"
proof (cases "wdra_amount ev")
  case None
  with assms show ?thesis using handle_event_readonly [OF None assms(1)] by (simp add: readonly_def)
next
  case (Some amt)
  with assms show ?thesis
    using wdra_locked_exact wdra_amount_exact by (metis handle_event_wdra_amount)
qed

end
