(* ===== verification/Faults.thy ===== *)
theory Faults
  imports Protocol Exact
begin

text \<open>
  Which faults the client lets escape against the real handler.  The handler
  keeps every balance a decimal (\<open>Exact\<close>), so the \<open>AMNT:\<close> reply of \<open>BALA\<close> is
  a number \<open>float()\<close> reads, and the generic lemma \<open>run_actions_faults\<close> of
  \<open>Client\<close> applies to every session: a traceback can only be the last
  dialog of a session, after the connection error (as the \<open>TclError\<close> of a
  second login after the handler closed the connection, \<open>Protocol\<close>).
\<close>

section \<open>The link keeps the ledger exact and answers BALA with a number\<close>

lemma server_exch_exact:
  "server_exch cmd l = (r, l') \<Longrightarrow> exact_ledger (accounts (lsrv l)) \<Longrightarrow> exact_ledger (accounts (lsrv l'))"
proof -
  obtain fl out srv' ss' where "handle_event (Recv cmd) (lsrv l) (lss l) = (fl, out, srv', ss')"
    by (metis prod_cases4)
  then show "server_exch cmd l = (r, l') \<Longrightarrow> exact_ledger (accounts (lsrv l)) \<Longrightarrow> ?thesis"
    by (auto simp: server_exch_def dest: handle_event_exact simp del: handle_event.simps split: conn.splits)
qed

lemma close_link_exact:
  "exact_ledger (accounts (lsrv l)) \<Longrightarrow> exact_ledger (accounts (lsrv (close_link l)))"
proof -
  obtain fl out srv' ss' where "handle_event (Recv []) (lsrv l) (lss l) = (fl, out, srv', ss')"
    by (metis prod_cases4)
  then show "exact_ledger (accounts (lsrv l)) \<Longrightarrow> ?thesis"
    by (auto simp: close_link_def dest: handle_event_exact simp del: handle_event.simps split: conn.splits)
qed

lemma bala_reply_parses:
  assumes "exact_ledger (accounts (lsrv l))" "server_exch ''BALA'' l = (Reply r, l')" "take 5 r = ''AMNT:''"
  shows "\<exists>x. py_float (py_split_sep CHR '':'' r ! 1) = Inr x"
proof (cases "lconn l")
  case Open
  obtain fl out srv' ss' where h: "cmd_bala (lsrv l) (lss l) = (fl, out, srv', ss')"
    by (cases "cmd_bala (lsrv l) (lss l)") auto
  have e: "first_reply fl out = Reply r"
    using assms(2) Open h by (simp add: server_exch_def handle_event_client_cmds(4) del: handle_event.simps)
  show ?thesis
  proof (cases out)
    case Nil
    with e assms(3) show ?thesis by (auto simp: first_reply_def split: if_splits)
  next
    case (Cons m ms)
    then obtain u a where "accounts (lsrv l) u = Some a" "r = AMNT (balance a)"
      using h e by (auto simp: cmd_bala_def first_reply_def split: option.splits if_splits sum.splits)
    moreover have "exact_num (balance a)" if "accounts (lsrv l) u = Some a" for u a
      using assms(1) that by (simp add: exact_ledger_def)
    ultimately show ?thesis
      using amnt_field colon_not_in_str_num float_str_num by (fastforce simp: AMNT_def)
  qed
qed (use assms(2,3) in \<open>simp_all add: server_exch_def\<close>)

section \<open>A traceback only after a lost connection\<close>

text \<open>
  C30: started on a ledger whose balances are
  decimals (every ledger the server loads from JSON text is one in the model),
  a GUI session of any sequence of clicks ends, and a traceback appears only
  as its last dialog, after the connection-error dialog: every \<open>except\<close>
  clause of \<open>login\<close>, \<open>check_balance\<close>, \<open>withdraw\<close> and \<open>logout\<close> catches
  what its body raises, except the \<open>TclError\<close> of a caller that goes on
  after \<open>send_command\<close> destroyed the window.
\<close>

theorem gui_traceback_only_after_lost_connection:
  assumes "exact_ledger (accounts srv)"
  shows "\<exists>ds cl l. gui_session srv acts = Some (ds, cl, l) \<and> tb_last ds"
proof -
  let ?I = "\<lambda>l. exact_ledger (accounts (lsrv l))"
  obtain ds cl l where r: "run_actions server_exch close_link acts init_client (init_link srv 0) = Some (ds, cl, l)"
    using run_actions_live [of init_client "init_link srv 0" acts] by (auto simp: gui_inv_def init_client_def)
  have i0: "?I (init_link srv 0)" using assms by (simp add: init_link_def)
  have "tb_last ds"
  proof (rule run_actions_faults [of server_exch close_link acts init_client "init_link srv 0" ds cl l ?I, OF r i0])
    show "\<And>cmd c r c'. server_exch cmd c = (r, c') \<Longrightarrow> ?I c \<Longrightarrow> ?I c'" by (rule server_exch_exact)
    show "\<And>c. ?I c \<Longrightarrow> ?I (close_link c)" by (rule close_link_exact)
    show "\<And>c r c'. ?I c \<Longrightarrow> server_exch ''BALA'' c = (Reply r, c') \<Longrightarrow> take 5 r = ''AMNT:'' \<Longrightarrow>
      \<exists>x. py_float (py_split_sep CHR '':'' r ! 1) = Inr x" by (rule bala_reply_parses)
  qed
  with r show ?thesis by (simp add: gui_session_def client_main_def client_init_reachable)
qed

theorem gui_traceback_only_after_lost_connection_witness:
  "exact_ledger (accounts demo_srv) \<and>
   map_option (\<lambda>(ds, cl, l). ds)
     (gui_session demo_srv [Login ''alice'' ''secret'', Logout, Login ''alice'' ''secret'', Login ''alice'' ''secret'']) =
   Some [ErrBadUser, ErrConnection, Traceback TclError] \<and>
   (\<exists>ds cl l. gui_session demo_srv [Login ''alice'' ''secret'', Logout, Login ''alice'' ''secret'',
       Login ''alice'' ''secret''] = Some (ds, cl, l) \<and> tb_last ds)"
proof -
  have x: "exact_num (balance alice_acct)" unfolding demo_defs by code_simp
  have h: "exact_ledger (accounts demo_srv)" using x by (simp add: exact_ledger_def demo_srv_def)
  have g: "map_option (\<lambda>(ds, cl, l). ds)
     (gui_session demo_srv [Login ''alice'' ''secret'', Logout, Login ''alice'' ''secret'', Login ''alice'' ''secret'']) =
   Some [ErrBadUser, ErrConnection, Traceback TclError]"
    unfolding gui_session_def demo_defs by code_simp
  from gui_traceback_only_after_lost_connection [OF h] h g show ?thesis by simp
qed

end
