(* ===== verification/AuditLog.thy ===== *)
theory AuditLog
  imports Exact "HOL-Library.Sublist"
begin

text \<open>
  The audit log (\<open>BankServer.log\<close>, src/code/server.py lines 28--31, and
  the five \<open>self.log\<close> calls of \<open>handle_client\<close>): the model's log is a
  list of events of peers (\<open>Server\<close>); this theory prints it as the lines of
  \<open>server.log\<close>, with the clock as an input, gives a reader of those lines,
  and shows that every line a handler writes reads back as its event, one
  line per event, appended after the lines already there, for one handler
  and for the threads of \<open>Concurrency\<close> under every interleaving.
\<close>

section \<open>The log file\<close>

text \<open>\<open>datetime.now()\<close>: the clock, an input of the environment.\<close>

record datetime =
  year :: nat
  month :: nat
  day :: nat
  hour :: nat
  minute :: nat
  second :: nat

text \<open>\<open>str(n)\<close> zero-padded to \<open>k\<close> digits, as the directives of \<open>strftime\<close> print.\<close>

definition pad_digits :: "nat \<Rightarrow> nat \<Rightarrow> pystr" where
  "pad_digits k n = replicate (k - length (nat_digits n)) CHR ''0'' @ nat_digits n"

text \<open>\<open>strftime("%Y-%m-%d %H:%M:%S")\<close> (line 29).\<close>

definition strftime_ts :: "datetime \<Rightarrow> pystr" where
  "strftime_ts t = pad_digits 4 (year t) @ ''-'' @ pad_digits 2 (month t) @ ''-'' @ pad_digits 2 (day t) @
     '' '' @ pad_digits 2 (hour t) @ '':'' @ pad_digits 2 (minute t) @ '':'' @ pad_digits 2 (second t)"

text \<open>\<open>f.write(f"[{timestamp}] {message}\n")\<close> (lines 30--31).\<close>

definition log_line :: "datetime \<Rightarrow> pystr \<Rightarrow> pystr" where
  "log_line t message = ''['' @ strftime_ts t @ ''] '' @ message @ [CHR 0x0A]"

text \<open>\<open>f"{current_user}"\<close>: \<open>None\<close> formats as \<open>None\<close>.\<close>

definition py_str_user :: "pystr option \<Rightarrow> pystr" where
  "py_str_user u = (case u of None \<Rightarrow> ''None'' | Some s \<Rightarrow> s)"

text \<open>
  The messages \<open>handle_client\<close> passes to \<open>self.log\<close> (lines 49, 57, 65, 74,
  80); the first argument is \<open>f"{addr}"\<close>, and \<open>f"{amount}"\<close> is
  \<open>repr(amount)\<close>.
\<close>

fun log_message :: "pystr \<Rightarrow> log_event \<Rightarrow> pystr" where
  "log_message a (AuthRequired u) = a @ '' - '' @ u @ '': Authentication required''"
| "log_message a (LoginSuccess u) = a @ '' - '' @ u @ '': Login success''"
| "log_message a (BalanceChecked u) = a @ '' - '' @ u @ '': Balance checked''"
| "log_message a (WithdrawOk u x) = a @ '' - '' @ u @ '': Withdraw '' @ py_repr_float x @ '' OK''"
| "log_message a (SessionEnded cu) = a @ '' - '' @ py_str_user cu @ '': Session ended''"

text \<open>
  \<open>server.log\<close> after the entries of the model's log, each written by one
  call of \<open>log\<close> (mode \<open>'a'\<close>: appended) at the time of its stamp; \<open>addr\<close>
  renders the peer as \<open>f"{addr}"\<close> does.
\<close>

fun log_file :: "(peer \<Rightarrow> pystr) \<Rightarrow> datetime list \<Rightarrow> log_entry list \<Rightarrow> pystr" where
  "log_file addr (t # ts) ((p, e) # es) = log_line t (log_message (addr p) e) @ log_file addr ts es"
| "log_file addr _ _ = []"

section \<open>Reading the log back\<close>

text \<open>
  A reader of the log for review (the spec's section 9): split the file into
  lines, take the stamp between the brackets, and read the event off the end
  of the message, where its fixed text is.
\<close>

text \<open>The lines are read from their end, reversed: \<open>strip_prefix\<close> on the reversed text.\<close>

fun strip_prefix :: "pystr \<Rightarrow> pystr \<Rightarrow> pystr option" where
  "strip_prefix [] s = Some s"
| "strip_prefix (x # xs) (y # ys) = (if x = y then strip_prefix xs ys else None)"
| "strip_prefix (x # xs) [] = None"

definition strip_suffix :: "pystr \<Rightarrow> pystr \<Rightarrow> pystr option" where
  "strip_suffix suf s = map_option rev (strip_prefix (rev suf) (rev s))"

text \<open>The last word of a text and what precedes it.\<close>

definition split_last_word :: "pystr \<Rightarrow> pystr \<times> pystr" where
  "split_last_word s =
     (rev (dropWhile (\<lambda>c. \<not> py_isspace c) (rev s)), rev (takeWhile (\<lambda>c. \<not> py_isspace c) (rev s)))"

definition parse_who :: "pystr \<Rightarrow> (pystr \<times> pystr) option" where
  "parse_who p = (case split_last_word p of (q, u) \<Rightarrow> map_option (\<lambda>a. (a, u)) (strip_suffix '' - '' q))"

definition parse_log_message :: "pystr \<Rightarrow> (pystr \<times> log_event) option" where
  "parse_log_message m =
     (case strip_suffix '': Authentication required'' m of
        Some p \<Rightarrow> map_option (\<lambda>(a, u). (a, AuthRequired u)) (parse_who p)
      | None \<Rightarrow>
     (case strip_suffix '': Login success'' m of
        Some p \<Rightarrow> map_option (\<lambda>(a, u). (a, LoginSuccess u)) (parse_who p)
      | None \<Rightarrow>
     (case strip_suffix '': Balance checked'' m of
        Some p \<Rightarrow> map_option (\<lambda>(a, u). (a, BalanceChecked u)) (parse_who p)
      | None \<Rightarrow>
     (case strip_suffix '': Session ended'' m of
        Some p \<Rightarrow> map_option (\<lambda>(a, u). (a, SessionEnded (if u = ''None'' then None else Some u))) (parse_who p)
      | None \<Rightarrow>
     (case strip_suffix '' OK'' m of
        None \<Rightarrow> None
      | Some p \<Rightarrow>
          (case split_last_word p of
             (q, r) \<Rightarrow>
               (case (strip_suffix '': Withdraw '' q, py_float r) of
                  (Some q', Inr x) \<Rightarrow> map_option (\<lambda>(a, u). (a, WithdrawOk u x)) (parse_who q')
                | _ \<Rightarrow> None)))))))"

fun split_lines_aux :: "pystr \<Rightarrow> pystr \<Rightarrow> pystr list" where
  "split_lines_aux cur [] = (if cur = [] then [] else [rev cur])"
| "split_lines_aux cur (c # cs) =
     (if c = CHR 0x0A then rev cur # split_lines_aux [] cs else split_lines_aux (c # cur) cs)"

definition parse_log_line :: "pystr \<Rightarrow> (pystr \<times> pystr \<times> log_event) option" where
  "parse_log_line l =
     (case l of
        c # r \<Rightarrow>
          if c = CHR ''['' then
            (case dropWhile (\<lambda>c. c \<noteq> CHR '']'') r of
               c1 # c2 # m \<Rightarrow>
                 if c2 = CHR '' '' then
                   map_option (\<lambda>(a, e). (takeWhile (\<lambda>c. c \<noteq> CHR '']'') r, a, e)) (parse_log_message m)
                 else None
             | _ \<Rightarrow> None)
          else None
      | [] \<Rightarrow> None)"

definition parse_log_file :: "pystr \<Rightarrow> (pystr \<times> pystr \<times> log_event) option list" where
  "parse_log_file f = map parse_log_line (split_lines_aux [] f)"

text \<open>What a line can tell of an event: a user named \<open>None\<close> reads as no user.\<close>

fun log_view :: "log_event \<Rightarrow> log_event" where
  "log_view (SessionEnded (Some u)) = SessionEnded (if u = ''None'' then None else Some u)"
| "log_view e = e"

text \<open>The events a handler can log: user ids are words, amounts are exact.\<close>

fun event_ok :: "log_event \<Rightarrow> bool" where
  "event_ok (AuthRequired u) = py_word u"
| "event_ok (LoginSuccess u) = py_word u"
| "event_ok (BalanceChecked u) = py_word u"
| "event_ok (WithdrawOk u x) = (py_word u \<and> exact_float x)"
| "event_ok (SessionEnded cu) = (case cu of None \<Rightarrow> True | Some u \<Rightarrow> py_word u)"

text \<open>The session is bound, if at all, to a word (\<open>userid = parts[1]\<close> of \<open>split()\<close>).\<close>

definition user_word :: "session \<Rightarrow> bool" where
  "user_word ss = (case current_user ss of None \<Rightarrow> True | Some u \<Rightarrow> py_word u)"

text \<open>\<open>srv'\<close> has the log of \<open>srv\<close> followed by events of peer \<open>p\<close> a handler can log.\<close>

definition logs_from :: "peer \<Rightarrow> server \<Rightarrow> server \<Rightarrow> bool" where
  "logs_from p srv srv' \<longleftrightarrow> (\<exists>new. log srv' = log srv @ new \<and> list_all (\<lambda>(q, e). q = p \<and> event_ok e) new)"

text \<open>The user and amount a thread carries inside \<open>with self.lock:\<close> can be logged.\<close>

fun word_phase :: "phase \<Rightarrow> bool" where
  "word_phase (Locked amt) = exact_float amt"
| "word_phase (Checked u amt) = (py_word u \<and> exact_float amt)"
| "word_phase (Loaded u amt b) = (py_word u \<and> exact_float amt)"
| "word_phase (Stored u amt) = (py_word u \<and> exact_float amt)"
| "word_phase _ = True"

text \<open>Every logged event can be printed and read back; every thread can only log such events.\<close>

definition log_inv :: "sys \<Rightarrow> bool" where
  "log_inv s \<longleftrightarrow> list_all (\<lambda>(p, e). event_ok e) (log (shared s)) \<and>
     (\<forall>t th. thr s t = Some th \<longrightarrow> user_word (sess th) \<and> word_phase (phase th))"

section \<open>Lemmas\<close>

lemma takeWhile_all: "list_all P xs \<Longrightarrow> takeWhile P (xs @ ys) = xs @ takeWhile P ys"
  by (induction xs) auto

lemma dropWhile_all: "list_all P xs \<Longrightarrow> dropWhile P (xs @ ys) = dropWhile P ys"
  by (induction xs) auto

lemma strip_prefix_append [simp]: "strip_prefix xs (xs @ ys) = Some ys"
  by (induction xs) auto

lemma strip_suffix_append [simp]: "strip_suffix suf (p @ suf) = Some p"
  by (simp add: strip_suffix_def)

lemma space_isspace [simp]: "py_isspace CHR '' ''"
  by (simp add: py_isspace_def)

lemma split_last_word_space:
  assumes "list_all (\<lambda>c. \<not> py_isspace c) u" "py_isspace c"
  shows "split_last_word (x @ c # u) = (x @ [c], u)"
proof -
  have "list_all (\<lambda>c. \<not> py_isspace c) (rev u)" using assms(1) by (simp add: list_all_iff)
  with assms(2) show ?thesis by (simp add: split_last_word_def takeWhile_all dropWhile_all)
qed

lemma repr_float_word:
  assumes "exact_float x"
  shows "py_word (py_repr_float x)"
proof (cases x)
  case (Fin q)
  show ?thesis
  proof (cases "q = 0")
    case False
    obtain D e where dd: "digits_decpt \<bar>q\<bar> = (D, e)" by (cases "digits_decpt \<bar>q\<bar>") auto
    have "D \<noteq> []" "list_all is_digit D"
      using digits_decpt_value [of "\<bar>q\<bar>", OF _ _ dd] False assms Fin
      by (simp_all add: is_decimal_abs exact_float_def)
    from repr_digits_shape [OF this, of e] obtain c r where
      cr: "repr_digits D e = c # r" "is_digit c" "list_all numchar r" by blast
    have "list_all (\<lambda>c. \<not> py_isspace c) (c # r)"
      using cr(2,3) digit_numchar [of c] numchar_not_space by (auto simp: list_all_iff)
    with False Fin dd cr(1) show ?thesis by (simp add: py_word_def py_isspace_def)
  qed (simp add: Fin py_word_def py_isspace_def)
qed (simp_all add: py_word_def py_isspace_def)

lemma float_repr_exact: "exact_float x \<Longrightarrow> py_float (py_repr_float x) = Inr x"
  using float_str_num [of "PyFloat x"] by (cases x) (simp_all add: exact_num_def exact_float_def)

lemma word_no_space: "py_word w \<Longrightarrow> list_all (\<lambda>c. \<not> py_isspace c) w"
  by (simp add: py_word_def list_all_iff)

lemma parse_log_message_roundtrip:
  assumes "event_ok e"
  shows "parse_log_message (log_message a e) = Some (a, log_view e)"
proof (cases e)
  case (WithdrawOk u x)
  have w: "list_all (\<lambda>c. \<not> py_isspace c) (rev u)" "list_all (\<lambda>c. \<not> py_isspace c) (rev (py_repr_float x))"
    using assms repr_float_word [of x] WithdrawOk by (auto simp: py_word_def list_all_iff)
  have f: "py_float (py_repr_float x) = Inr x" using assms WithdrawOk float_repr_exact by simp
  show ?thesis
    using w f WithdrawOk
    by (simp add: parse_log_message_def strip_suffix_def parse_who_def split_last_word_def
        takeWhile_all dropWhile_all)
next
  case (SessionEnded cu)
  have w: "list_all (\<lambda>c. \<not> py_isspace c) (rev (py_str_user cu))"
    using assms SessionEnded by (auto simp: py_word_def list_all_iff py_str_user_def py_isspace_def split: option.splits)
  show ?thesis
    using w SessionEnded
    by (cases cu) (simp_all add: parse_log_message_def strip_suffix_def parse_who_def split_last_word_def
        takeWhile_all dropWhile_all py_str_user_def)
qed (use assms in \<open>simp_all add: parse_log_message_def strip_suffix_def parse_who_def split_last_word_def
        takeWhile_all dropWhile_all word_no_space\<close>)

lemma split_lines_aux_line:
  "CHR 0x0A \<notin> set l \<Longrightarrow> split_lines_aux cur (l @ CHR 0x0A # rest) = (rev cur @ l) # split_lines_aux [] rest"
  by (induction l arbitrary: cur) auto

lemma pad_digits_digit: "c \<in> set (pad_digits k n) \<Longrightarrow> is_digit c"
proof -
  have "is_digit CHR ''0''" by (simp add: is_digit_def)
  moreover assume "c \<in> set (pad_digits k n)"
  ultimately show ?thesis
    using nat_digits_digits [of n] by (auto simp: pad_digits_def list_all_iff split: if_splits)
qed

lemma strftime_ts_char:
  "c \<in> set (strftime_ts t) \<Longrightarrow> is_digit c \<or> c = CHR ''-'' \<or> c = CHR '' '' \<or> c = CHR '':''"
  unfolding strftime_ts_def set_append by (auto dest: pad_digits_digit)

lemma strftime_ts_chars: "CHR '']'' \<notin> set (strftime_ts t) \<and> CHR 0x0A \<notin> set (strftime_ts t)"
proof -
  have "\<not> is_digit CHR '']''" "\<not> is_digit (CHR 0x0A)" by (simp_all add: is_digit_def)
  then show ?thesis using strftime_ts_char [of "CHR '']''" t] strftime_ts_char [of "CHR 0x0A" t] by auto
qed

lemma parse_log_line_stamp:
  "CHR '']'' \<notin> set ts \<Longrightarrow>
   parse_log_line (''['' @ ts @ ''] '' @ m) = map_option (\<lambda>(a, e). (ts, a, e)) (parse_log_message m)"
proof -
  assume "CHR '']'' \<notin> set ts"
  then have "list_all (\<lambda>c. c \<noteq> CHR '']'') ts" by (auto simp: list_all_iff)
  then show ?thesis by (simp add: parse_log_line_def dropWhile_all takeWhile_all)
qed

lemma newline_isspace [simp]: "py_isspace (CHR 0x0A)"
  by (simp add: py_isspace_def)

lemma log_message_no_newline:
  assumes "event_ok e" "CHR 0x0A \<notin> set a"
  shows "CHR 0x0A \<notin> set (log_message a e)"
proof -
  have "CHR 0x0A \<notin> set w" if "py_word w" for w
    using that by (auto simp: py_word_def list_all_iff)
  with assms repr_float_word show ?thesis
    by (cases e) (auto simp: py_str_user_def split: option.splits)
qed

lemma log_file_reads_back:
  "length ts = length es \<Longrightarrow> list_all (\<lambda>(p, e). event_ok e \<and> CHR 0x0A \<notin> set (addr p)) es \<Longrightarrow>
   parse_log_file (log_file addr ts es) = map (\<lambda>(t, p, e). Some (strftime_ts t, addr p, log_view e)) (zip ts es)"
proof (induction es arbitrary: ts)
  case Nil
  then show ?case by (simp add: parse_log_file_def)
next
  case (Cons pe es)
  obtain p e where pe: "pe = (p, e)" by (cases pe)
  obtain t ts' where ts: "ts = t # ts'" using Cons.prems(1) by (cases ts) auto
  let ?l = "''['' @ strftime_ts t @ ''] '' @ log_message (addr p) e"
  have ok: "event_ok e" "CHR 0x0A \<notin> set (addr p)" using Cons.prems(2) pe by simp_all
  have nl: "CHR 0x0A \<notin> set ?l"
    using strftime_ts_chars [of t] log_message_no_newline [OF ok] by simp
  have f: "log_file addr ts (pe # es) = ?l @ CHR 0x0A # log_file addr ts' es"
    by (simp add: ts pe log_line_def)
  have "parse_log_file (log_file addr ts' es) = map (\<lambda>(t, p, e). Some (strftime_ts t, addr p, log_view e)) (zip ts' es)"
    using Cons.IH [of ts'] Cons.prems ts by simp
  then show ?case
    unfolding f parse_log_file_def split_lines_aux_line [OF nl]
    using parse_log_line_stamp [of "strftime_ts t" "log_message (addr p) e"] strftime_ts_chars [of t]
      parse_log_message_roundtrip [OF ok(1)] by (simp add: ts pe parse_log_file_def)
qed

lemma log_file_append:
  "length ts0 = length es0 \<Longrightarrow> log_file addr (ts0 @ ts) (es0 @ es) = log_file addr ts0 es0 @ log_file addr ts es"
  by (induction addr ts0 es0 rule: log_file.induct) auto

section \<open>What a handler logs\<close>

lemma split_aux_no_space:
  "list_all (\<lambda>c. \<not> py_isspace c) cur \<Longrightarrow> w \<in> set (py_split_aux cur s) \<Longrightarrow> list_all (\<lambda>c. \<not> py_isspace c) w"
  by (induction cur s rule: py_split_aux.induct) (auto split: if_splits)

lemma split_field_word: "w \<in> set (py_split s) \<Longrightarrow> py_word w"
  using split_aux_no_space [of "[]" w s] py_split_nonempty [of w s] by (simp add: py_word_def py_split_def)

lemma logs_from_same: "log srv' = log srv \<Longrightarrow> logs_from p srv srv'"
  by (simp add: logs_from_def)

lemma logs_from_log_ev: "event_ok e \<Longrightarrow> log srv' = log srv \<Longrightarrow> logs_from p srv (log_ev p e srv')"
  by (simp add: logs_from_def log_ev_def)

lemma logs_from_trans: "logs_from p a b \<Longrightarrow> logs_from p b c \<Longrightarrow> logs_from p a c"
  by (auto simp: logs_from_def)

lemma handle_parts_logs:
  assumes "handle_parts parts srv ss = (fl, out, srv', ss')" "user_word ss" "\<forall>w \<in> set parts. py_word w"
  shows "user_word ss' \<and> peer ss' = peer ss \<and> logs_from (peer ss) srv srv'"
  using assms
proof (cases rule: handle_parts_cases [of parts srv ss])
  case helo
  with assms show ?thesis
    by (auto simp: cmd_helo_def user_word_def logs_from_same logs_from_log_ev split: sum.splits if_splits)
next
  case pass
  with assms show ?thesis
    by (auto simp: cmd_pass_def user_word_def logs_from_same logs_from_log_ev split: sum.splits if_splits option.splits)
next
  case bala
  with assms show ?thesis
    by (auto simp: cmd_bala_def user_word_def logs_from_same logs_from_log_ev split: sum.splits if_splits option.splits)
next
  case wdra
  with assms show ?thesis
    by (auto simp: cmd_wdra_def wdra_locked_def Let_def user_word_def logs_from_same logs_from_log_ev
        split: sum.splits if_splits option.splits prod.splits dest: py_float_exact)
qed (use assms in \<open>auto simp: cmd_bye_def user_word_def logs_from_same logs_from_log_ev split: option.splits\<close>)

lemma handle_event_logs:
  assumes "handle_event ev srv ss = (fl, out, srv', ss')" "user_word ss"
  shows "user_word ss' \<and> peer ss' = peer ss \<and> logs_from (peer ss) srv srv'"
  using handle_event_cases [OF assms(1)] assms(2) handle_parts_logs split_field_word logs_from_same
  by metis

lemma serve_logs:
  "serve evs srv ss = (en, out, srv', ss') \<Longrightarrow> user_word ss \<Longrightarrow> logs_from (peer ss) srv srv'"
proof (induction evs arbitrary: srv ss en out)
  case Nil
  then show ?case by (auto intro: logs_from_same)
next
  case (Cons ev evs)
  obtain fl o1 s1 ss1 where ev: "handle_event ev srv ss = (fl, o1, s1, ss1)"
    by (cases "handle_event ev srv ss") auto
  from handle_event_logs [OF ev Cons.prems(2)]
  have inv1: "user_word ss1" "peer ss1 = peer ss" "logs_from (peer ss) srv s1" by auto
  show ?case
  proof (cases fl)
    case Continue
    with Cons.prems(1) ev obtain o2 where "serve evs s1 ss1 = (en, o2, srv', ss')"
      by (auto split: prod.splits)
    from Cons.IH [OF this inv1(1)] inv1(2,3) show ?thesis by (metis logs_from_trans)
  qed (use Cons.prems(1) ev inv1 in auto)
qed

text \<open>
  C31: a handler appends to the log only events of its own peer, and
  whatever the clock shows, \<open>server.log\<close> afterwards is the old file followed
  by one line \<open>[timestamp] addr - user: event\<close> per event, which reads back as
  its stamp, peer and event; the only thing lost is a user named \<open>None\<close>,
  whose logout reads as the logout of a session that never logged in.
\<close>

theorem handler_log_reads_back:
  assumes "handle_client evs srv p = (en, out, srv', ss')" "CHR 0x0A \<notin> set (addr p)"
  shows "\<exists>new. log srv' = log srv @ new \<and> list_all (\<lambda>(q, e). q = p) new \<and>
    (\<forall>ts0 ts. length ts0 = length (log srv) \<longrightarrow> length ts = length new \<longrightarrow>
       log_file addr (ts0 @ ts) (log srv') = log_file addr ts0 (log srv) @ log_file addr ts new \<and>
       parse_log_file (log_file addr ts new) =
         map (\<lambda>(t, q, e). Some (strftime_ts t, addr p, log_view e)) (zip ts new))"
proof -
  have "logs_from p srv srv'"
    using serve_logs [of evs srv "\<lparr>peer = p, current_user = None\<rparr>"] assms(1)
    by (simp add: handle_client_def user_word_def)
  then obtain new where n: "log srv' = log srv @ new" "list_all (\<lambda>(q, e). q = p \<and> event_ok e) new"
    by (auto simp: logs_from_def)
  have ok: "list_all (\<lambda>(q, e). event_ok e \<and> CHR 0x0A \<notin> set (addr q)) new"
    using n(2) assms(2) by (auto simp: list_all_iff)
  have "map (\<lambda>(t, q, e). Some (strftime_ts t, addr q, log_view e)) (zip ts new) =
        map (\<lambda>(t, q, e). Some (strftime_ts t, addr p, log_view e)) (zip ts new)" for ts
    using n(2) by (auto simp: list_all_iff dest: set_zip_rightD)
  with n log_file_reads_back [OF _ ok] log_file_append show ?thesis
    by (auto simp: list_all_iff)
qed

theorem handler_log_reads_back_witness:
  "CHR 0x0A \<notin> set ''(127.0.0.1, 7)'' \<and>
   log (fst (snd (snd (handle_client [Recv ''HELO alice'', Recv ''PASS secret'', Recv ''WDRA 10'', Recv ''BYE'']
     demo_srv 7)))) =
     [(7, AuthRequired ''alice''), (7, LoginSuccess ''alice''), (7, WithdrawOk ''alice'' (Fin 10)),
      (7, SessionEnded (Some ''alice''))] \<and>
   strftime_ts \<lparr>year = 2024, month = 5, day = 1, hour = 9, minute = 30, second = 0\<rparr> = ''2024-05-01 09:30:00'' \<and>
   parse_log_file (log_file (\<lambda>_. ''(127.0.0.1, 7)'')
       (replicate 4 \<lparr>year = 2024, month = 5, day = 1, hour = 9, minute = 30, second = 0\<rparr>)
       [(7, AuthRequired ''alice''), (7, LoginSuccess ''alice''), (7, WithdrawOk ''alice'' (Fin 10)),
        (7, SessionEnded (Some ''alice''))]) =
     map (\<lambda>e. Some (''2024-05-01 09:30:00'', ''(127.0.0.1, 7)'', e))
       [AuthRequired ''alice'', LoginSuccess ''alice'', WithdrawOk ''alice'' (Fin 10), SessionEnded (Some ''alice'')]"
proof -
  define evs where "evs = [Recv ''HELO alice'', Recv ''PASS secret'', Recv ''WDRA 10'', Recv ''BYE'']"
  define t where "t = \<lparr>year = 2024, month = 5, day = 1, hour = 9, minute = 30, second = 0::nat\<rparr>"
  obtain en out srv' ss' where r: "handle_client evs demo_srv 7 = (en, out, srv', ss')"
    by (cases "handle_client evs demo_srv 7") auto
  have l: "log srv' = [(7, AuthRequired ''alice''), (7, LoginSuccess ''alice''), (7, WithdrawOk ''alice'' (Fin 10)),
      (7, SessionEnded (Some ''alice''))]"
  proof -
    have "log (fst (snd (snd (handle_client evs demo_srv 7)))) = [(7, AuthRequired ''alice''),
      (7, LoginSuccess ''alice''), (7, WithdrawOk ''alice'' (Fin 10)), (7, SessionEnded (Some ''alice''))]"
      unfolding evs_def demo_defs by code_simp
    with r show ?thesis by simp
  qed
  have n: "CHR 0x0A \<notin> set ''(127.0.0.1, 7)''" by simp
  have s: "strftime_ts t = ''2024-05-01 09:30:00''" unfolding t_def by code_simp
  from handler_log_reads_back [OF r, of "\<lambda>_. ''(127.0.0.1, 7)''"] n l
  have "parse_log_file (log_file (\<lambda>_. ''(127.0.0.1, 7)'') (replicate 4 t) (log srv')) =
     map (\<lambda>(t, q, e). Some (strftime_ts t, ''(127.0.0.1, 7)'', log_view e)) (zip (replicate 4 t) (log srv'))"
    by (simp add: demo_srv_def)
  with l s r n show ?thesis by (simp add: evs_def t_def numeral_eq_Suc)
qed

section \<open>The log of the threaded server\<close>

lemma word_phase_after [simp]: "word_phase (after fl)"
  by (cases fl) simp_all

lemma log_inv_thread:
  "log_inv s \<Longrightarrow> thr s t = Some th \<Longrightarrow> user_word (sess th) \<and> word_phase (phase th)"
  by (simp add: log_inv_def)

lemma handle_event_log_inv:
  assumes "handle_event ev srv ss = (fl, out, srv', ss')" "user_word ss" "list_all (\<lambda>(p, e). event_ok e) (log srv)"
  shows "user_word ss' \<and> list_all (\<lambda>(p, e). event_ok e) (log srv') \<and> prefix (log srv) (log srv')"
  using handle_event_logs [OF assms(1,2)] assms(3) by (auto simp: logs_from_def list_all_iff)

lemma cstep_log_inv:
  "cstep s s' \<Longrightarrow> log_inv s \<Longrightarrow> log_inv s' \<and> prefix (log (shared s)) (log (shared s'))"
proof (induction rule: cstep.induct)
  case (accept s t evs)
  then show ?case by (simp add: log_inv_def new_thread_def user_word_def)
next
  case (atomic s t th ev evs)
  obtain fl out srv' ss' where h: "handle_event ev (shared s) (sess th) = (fl, out, srv', ss')"
    by (cases "handle_event ev (shared s) (sess th)") auto
  have "user_word ss' \<and> list_all (\<lambda>(p, e). event_ok e) (log srv') \<and> prefix (log (shared s)) (log srv')"
    using handle_event_log_inv [OF h] log_inv_thread [OF atomic.prems atomic(1)] atomic.prems
    by (simp add: log_inv_def)
  with atomic.prems show ?case by (simp add: run_event_def h log_inv_def)
next
  case (acquire s t th ev evs amt)
  then show ?case using log_inv_thread [OF acquire.prems acquire(1)]
    by (simp add: log_inv_def wdra_amount_exact)
next
  case (check s t th amt)
  have w: "user_word (sess th)" "word_phase (phase th)" using log_inv_thread [OF check.prems check(1)] by simp_all
  with check.prems check(2) show ?case
    by (auto simp: do_check_def crash_in_lock_def log_inv_def user_word_def split: option.splits)
next
  case (load s t th u amt)
  have w: "user_word (sess th)" "word_phase (phase th)" using log_inv_thread [OF load.prems load(1)] by simp_all
  with load.prems load(2) show ?case
    by (auto simp: do_load_def crash_in_lock_def log_inv_def split: option.splits)
next
  case (store s t th u amt b)
  have w: "user_word (sess th)" "word_phase (phase th)" using log_inv_thread [OF store.prems store(1)] by simp_all
  with store.prems store(2) show ?case
    by (auto simp: do_store_def crash_in_lock_def log_inv_def split: option.splits)
next
  case (save s t th u amt)
  have w: "user_word (sess th)" "word_phase (phase th)" using log_inv_thread [OF save.prems save(1)] by simp_all
  with save.prems save(2) show ?case
    by (auto simp: do_save_def crash_in_lock_def log_inv_def log_ev_def split: prod.splits sum.splits)
qed

lemma reach_log_inv:
  "reach srv0 s \<Longrightarrow> list_all (\<lambda>(p, e). event_ok e) (log srv0) \<Longrightarrow>
     log_inv s \<and> prefix (log srv0) (log (shared s))"
proof (induction rule: reach.induct)
  case init
  then show ?case by (simp add: log_inv_def init_sys_def)
next
  case (step s s')
  then show ?case using cstep_log_inv [of s s'] by (blast intro: prefix_order.trans)
qed

text \<open>
  C32: under every interleaving of the handler threads of
  \<open>BankServer.start\<close>, started from a log whose events can be printed, the log
  only grows, and \<open>server.log\<close> reads back line by line as the stamps, peers
  and events of the model's log (the user \<open>None\<close> aside): no thread writes a
  line that breaks the file's format.
\<close>

theorem threaded_log_reads_back:
  assumes "reach srv0 s" "list_all (\<lambda>(p, e). event_ok e) (log srv0)" "\<forall>p. CHR 0x0A \<notin> set (addr p)"
  shows "\<exists>new. log (shared s) = log srv0 @ new \<and>
    (\<forall>ts. length ts = length (log (shared s)) \<longrightarrow>
       parse_log_file (log_file addr ts (log (shared s))) =
         map (\<lambda>(t, p, e). Some (strftime_ts t, addr p, log_view e)) (zip ts (log (shared s))))"
proof -
  have i: "log_inv s" "prefix (log srv0) (log (shared s))" using reach_log_inv [OF assms(1,2)] by simp_all
  have "list_all (\<lambda>(p, e). event_ok e \<and> CHR 0x0A \<notin> set (addr p)) (log (shared s))"
    using i(1) assms(3) by (auto simp: log_inv_def list_all_iff)
  with i(2) log_file_reads_back show ?thesis by (auto simp: prefix_def)
qed

theorem threaded_log_reads_back_witness:
  "reach demo_srv demo_sys3 \<and> list_all (\<lambda>(p, e). event_ok e) (log demo_srv) \<and>
   (\<forall>p::nat. CHR 0x0A \<notin> set ''(127.0.0.1, 7)'') \<and>
   (\<exists>new. log (shared demo_sys3) = log demo_srv @ new \<and>
     (\<forall>ts. length ts = length (log (shared demo_sys3)) \<longrightarrow>
       parse_log_file (log_file (\<lambda>_. ''(127.0.0.1, 7)'') ts (log (shared demo_sys3))) =
         map (\<lambda>(t, p, e). Some (strftime_ts t, ''(127.0.0.1, 7)'', log_view e)) (zip ts (log (shared demo_sys3)))))"
proof -
  have r: "reach demo_srv demo_sys3" by (rule demo_reach3)
  have l: "list_all (\<lambda>(p, e). event_ok e) (log demo_srv)" by (simp add: demo_srv_def)
  have n: "\<forall>p::nat. CHR 0x0A \<notin> set ''(127.0.0.1, 7)''" by simp
  from threaded_log_reads_back [OF r l, of "\<lambda>_. ''(127.0.0.1, 7)''"] r l n show ?thesis by simp
qed

end
