(* ===== verification/Spec2Isabelle.thy ===== *)
theory Spec2Isabelle
  imports Faults AuditLog
begin

text \<open>
  \<^bold>\<open>A verification library for the bank session server and ATM client of src/code.\<close>

  \<^emph>\<open>The program.\<close>  src/code/server.py is a TCP server (\<open>BankServer\<close>) that
  loads a ledger of accounts from \<open>accounts.json\<close>, accepts connections on
  port 2540 and runs \<open>handle_client\<close> in one thread per connection.  A handler
  reads a chunk, strips and splits it, and runs one of five commands against
  its local \<open>current_user\<close> and the shared \<open>self.accounts\<close>: \<open>HELO id\<close>
  binds the session to an account, \<open>PASS pw\<close> compares the password,
  \<open>BALA\<close> replies with the balance, \<open>WDRA amount\<close> debits the account under
  \<open>self.lock\<close> and rewrites the file, \<open>BYE\<close> ends the session.
  src/code/client.py is a Tk window (\<open>ModernATMClient\<close>) whose buttons send
  these commands over one socket and read one reply each.

  \<^emph>\<open>The theories.\<close>
  \<^item> \<open>Prelude\<close>: Python exceptions as values (\<open>py_error\<close>), \<open>s[i]\<close> and
    \<open>d[k]\<close> with their \<open>IndexError\<close>/\<open>KeyError\<close>, shared lemmas.
  \<^item> \<open>PyStr\<close>: \<open>str.isspace\<close>, \<open>strip()\<close>, \<open>split()\<close>, digits and \<open>str(int)\<close>;
    how \<open>split()\<close> reads a command word followed by a space.
  \<^item> \<open>PyNum\<close>: Python numbers (\<open>pynum\<close>, \<open>pyfloat\<close>): \<open>float(s)\<close> with
    CPython's grammar, \<open>>=\<close>, \<open>-=\<close> with infinities and \<open>nan\<close>, and
    \<open>repr\<close> of a float as CPython's \<open>format_float_short\<close> prints it; a string
    \<open>float()\<close> accepts strips to a single word.
  \<^item> \<open>Repr\<close>: \<open>float()\<close> reads back what \<open>repr\<close> prints, for
    every float with a finite decimal expansion (\<open>exact_num\<close>), through the
    four layouts of \<open>repr_digits\<close> and the digits \<open>digits_decpt\<close> finds.
  \<^item> \<open>Ledger\<close>: accounts (\<open>record account\<close>), the ledger map, the file
    (\<open>ledger_file\<close>), \<open>load_accounts\<close>, \<open>save_accounts\<close> and the debit.
  \<^item> \<open>Server\<close>: \<open>handle_client\<close>: one definition per command
    (\<open>cmd_helo\<close>, \<open>cmd_pass\<close>, \<open>cmd_bala\<close>, \<open>wdra_locked\<close>/\<open>cmd_wdra\<close>,
    \<open>cmd_bye\<close>), the dispatch \<open>handle_parts\<close>, one turn \<open>handle_event\<close>, the
    loop \<open>serve\<close>; its invariants (\<open>session_ok\<close>, \<open>no_negative\<close>,
    \<open>synced\<close>, \<open>ledger_frame\<close>), the behaviour of each command on every
    branch, errors included, a bound on what a run sends and logs, and that
    the loop ends once the peer closes.
  \<^item> \<open>Concurrency\<close>: the threads of \<open>BankServer.start\<close> over the shared
    ledger, as the step relation \<open>cstep\<close>: a \<open>WDRA\<close> inside
    \<open>with self.lock:\<close> is split into its reads and writes (\<open>do_check\<close>,
    \<open>do_load\<close>, \<open>do_store\<close>, \<open>do_save\<close>), any other turn is one step.  The
    invariants \<open>conc_inv\<close> (lock held by exactly the thread inside it, no
    stale read) and \<open>replay_inv\<close> (the ledger is the initial one with the
    logged withdrawals replayed) hold in every reachable state (\<open>reach\<close>).
  \<^item> \<open>Exact\<close>: the amounts \<open>float()\<close> accepts are decimals
    (\<open>is_decimal\<close>, characterised as \<open>i / 10 ^ k\<close> through the prime
    factors 2 and 5 of the denominator), decimals are closed under
    subtraction, so \<open>exact_sys\<close> (every balance and every amount a thread
    carries is exact) holds in every reachable state of \<open>cstep\<close>: the
    balance \<open>AMNT:\<close> prints always reads back exactly.
  \<^item> \<open>Client\<close>: every method of \<open>ModernATMClient\<close> and the script at
    the end of client.py, as computations of the callback monad \<open>cb\<close>
    (Python's sequential execution with exceptions: \<open>cb_bind\<close>,
    \<open>cb_catch\<close> for \<open>try\<close>/\<open>except\<close>): \<open>update_status\<close>,
    \<open>connect_server\<close>, \<open>clear_main_container\<close>, \<open>show_login_ui\<close>,
    \<open>show_main_ui\<close>, \<open>show_withdraw_panel\<close>, \<open>send_command\<close>,
    \<open>login\<close>, \<open>check_balance\<close>, \<open>withdraw\<close>, \<open>logout\<close>,
    \<open>on_closing\<close>, the constructor (\<open>client_init\<close>) and the main loop
    (\<open>run_actions\<close>, \<open>client_main\<close>), over an abstract \<open>transport\<close>
    (what \<open>recv\<close> returns, or that it blocks or raises).  Tk is modelled by
    what the code relies on: a widget call raises \<open>TclError\<close> once the
    window is destroyed (\<open>widget\<close>), an exception escaping a callback is
    printed and the loop goes on (\<open>callback\<close>).  Lemmas: \<open>send_command\<close>
    on each branch, the invariant \<open>client_ok\<close> (main screen exactly when
    logged in, the withdraw panel only there) for every transport, the
    traceback that follows a lost connection, the crash of the
    constructor when the server is unreachable, and
    \<open>run_actions_faults\<close>: over a transport that answers \<open>BALA\<close> with a
    readable number, a callback raises only after a failed exchange has shown
    the connection error and destroyed the window, so a traceback can only
    be the last dialog of a run (\<open>tb_last\<close>).
  \<^item> \<open>Protocol\<close>: the client connected to one handler (\<open>server_exch\<close>,
    \<open>close_link\<close>, \<open>gui_session\<close> runs the whole client program against a
    fresh handler).  The link is \<open>Open\<close> while the handler loops,
    \<open>PeerClosed\<close> once it has left its loop and closed the socket (the
    client's next \<open>recv\<close> returns \<open>b''\<close>) and \<open>Broken\<close> after that (the
    peer has reset the connection and \<open>sendall\<close> raises): the exchanges of a successful session with the states
    they leave (\<open>login_run\<close>, \<open>check_balance_run\<close>, \<open>withdraw_run\<close>),
    end-to-end login and withdrawal, the client's amount check against the
    server's parse, that the window never blocks (\<open>gui_inv\<close>: on the main
    screen an open connection has a bound session), the balance the client
    shows against the ledger, a user id with a space (the window's user is
    the whole text, the handler's the first word), and what a logout or a
    blank user id leaves behind: one more login reads \<open>invalid username\<close>,
    the next one loses the connection and dies with \<open>TclError\<close>.
  \<^item> \<open>AuditLog\<close>: \<open>BankServer.log\<close> and the messages of
    \<open>handle_client\<close>: the stamp \<open>strftime_ts\<close> of a clock reading given as
    input, \<open>log_message\<close> (the five f-strings, \<open>repr\<close> of the amount,
    \<open>None\<close> for no user), \<open>log_line\<close> and \<open>log_file\<close> (one appended
    line per call); a reader of the file (\<open>parse_log_file\<close>, read from the
    end of each line) and the proof that every line a handler writes reads
    back, the user \<open>None\<close> aside (\<open>log_view\<close>); \<open>log_inv\<close> carries
    this to every state the threads of \<open>Concurrency\<close> reach.
  \<^item> \<open>Faults\<close>: every handler step keeps the ledger exact
    (\<open>handle_event_exact\<close>), so against the handler the hypotheses of
    \<open>run_actions_faults\<close> hold: in every GUI session a traceback can only
    be the last dialog, after the connection error (\<open>Protocol\<close> shows
    how: a second login after \<open>BYE\<close> or a blank user id).
  \<^item> this theory: for every account and amount, the balance the window
    shows before and after a withdrawal.

  \<^emph>\<open>Modelling choices.\<close>  A Python \<open>str\<close> is a list of \<open>char\<close> (code points
  below 256).  A finite float is the exact rational it denotes: rounding to 53
  bits and the sign of zero are not modelled, so the arithmetic claims hold for
  amounts whose decimal expansions are exact in binary64 arithmetic; infinities
  and \<open>nan\<close> are modelled with IEEE semantics.  The file is modelled by the
  ledger it decodes to; a failing write is the environment's choice
  (\<open>fs_mode\<close>).  The loop of a handler is a recursion over the chunks the peer
  sends and the client's session a recursion over the clicks, so neither needs
  fuel: a handler still waiting in \<open>recv\<close> when the input ends returns
  \<open>Blocked\<close>, and a client blocked in \<open>recv\<close> is the value \<open>None\<close>.  Between
  client and server each command is one chunk (it is shorter than 1024 bytes
  and the client waits for the reply); after the handler closes the
  connection the client's next \<open>recv\<close> returns \<open>b''\<close> and every later
  \<open>sendall\<close> raises (the reset a closed TCP peer answers with).
  Finite floats do not overflow: \<open>float('1e400')\<close> is the finite value
  \<open>10^400\<close> here and \<open>inf\<close> in CPython, so the model is faithful for
  amounts and balances below \<open>1.8e308\<close>.  The audit log is a
  list of events in the server's state, printed as \<open>server.log\<close> by
  \<open>AuditLog\<close> with the clock readings and the rendering of peer addresses
  as inputs (\<open>str\<close> of the address tuple is not modelled).  Not modelled: the accept loop itself
  (socket I/O; its threads are the \<open>accept\<close> steps of \<open>cstep\<close>), a
  \<open>ConnectionResetError\<close> out of the handler's \<open>recv\<close> (the client only
  closes its socket on exit, \<open>close_link\<close>, and the handler then reads
  \<open>b''\<close>), failures of \<open>conn.send\<close> and of writing \<open>server.log\<close> (no
  disk or socket fault but \<open>fs_mode\<close> of the ledger file), the
  layout and styles of the Tk widgets (\<open>configure_styles\<close>,
  \<open>setup_status_bar\<close> and the frames, labels and entries the \<open>show_*\<close>
  methods build: only the screen shown, whether the withdraw panel is placed
  and the lines of the status bar are modelled), the timestamps and wording of
  status lines, the window's close box (Tk's default, which destroys the
  window without \<open>on_closing\<close>), the \<open>:.2f\<close> formatting of amounts in
  dialogs (a dialog carries the float), the clock itself and the
  \<open>print\<close> at startup.\<close>

section \<open>A withdrawal seen through the window\<close>

text \<open>
  C29: for every account, its password, and every amount
  \<open>float()\<close> accepts that the balance covers (both single words and the
  balance a decimal), the clicks login, balance, withdraw panel, withdraw and
  balance against a fresh handler show exactly the balance, the withdrawal of
  that amount, and the balance less the amount.
\<close>

theorem gui_withdraw_then_balance:
  assumes "accounts srv u = Some a" "password a = p" "py_word u" "py_word p" "exact_num (balance a)"
    "py_float amt = Inr x" "py_ge (balance a) x" "fs srv = FsOk"
  shows "map_option (\<lambda>(ds, cl, l). ds)
     (gui_session srv [Login u p, CheckBalance, OpenWithdraw, Withdraw amt, CheckBalance]) =
   Some [InfoBalance (to_float (balance a)), InfoWithdrawn x, InfoBalance (float_sub (to_float (balance a)) x)]"
proof -
  define l0 where "l0 = init_link srv 0"
  have i: "alive init_client" "screen init_client = LoginScreen" by (simp_all add: init_client_def)
  have u: "u \<noteq> []" using assms(3) by (simp add: py_word_def)
  have "\<exists>cl1 l1. login server_exch u p init_client l0 = Some (Ret (), [], cl1, l1) \<and>
      alive cl1 \<and> screen cl1 = MainScreen \<and> lconn l1 = Open \<and> current_user (lss l1) = Some u \<and>
      accounts (lsrv l1) = accounts srv \<and> fs (lsrv l1) = fs srv"
    using login_run [of init_client l0 u a p] assms by (simp add: l0_def init_link_def init_client_def)
  then obtain cl1 l1 where s1: "login server_exch u p init_client l0 = Some (Ret (), [], cl1, l1)"
    and k1: "alive cl1" "screen cl1 = MainScreen" "lconn l1 = Open" "current_user (lss l1) = Some u"
      "accounts (lsrv l1) = accounts srv" "fs (lsrv l1) = fs srv" by blast
  have "\<exists>cl2 l2. check_balance server_exch cl1 l1 = Some (Ret (), [InfoBalance (to_float (balance a))], cl2, l2) \<and>
      alive cl2 \<and> screen cl2 = MainScreen \<and> lconn l2 = Open \<and> current_user (lss l2) = Some u \<and>
      accounts (lsrv l2) = accounts srv \<and> fs (lsrv l2) = fs srv"
    using check_balance_run [of cl1 l1 u a] k1 u assms by simp
  then obtain cl2 l2 where s2: "check_balance server_exch cl1 l1 = Some (Ret (), [InfoBalance (to_float (balance a))], cl2, l2)"
    and k2: "alive cl2" "screen cl2 = MainScreen" "lconn l2 = Open" "current_user (lss l2) = Some u"
      "accounts (lsrv l2) = accounts srv" "fs (lsrv l2) = fs srv" by blast
  obtain cl3 where s3: "show_withdraw_panel cl2 l2 = Some (Ret (), [], cl3, l2)"
    and k3: "alive cl3" "screen cl3 = MainScreen" "panel cl3"
    using k2 by (simp add: cb_eval)
  have "\<exists>cl4 l4. withdraw server_exch amt cl3 l2 = Some (Ret (), [InfoWithdrawn x], cl4, l4) \<and>
      alive cl4 \<and> screen cl4 = MainScreen \<and> panel cl4 \<and> lconn l4 = Open \<and> current_user (lss l4) = Some u \<and>
      accounts (lsrv l4) = debit (accounts srv) u x"
    using withdraw_run [of cl3 l2 u a amt x] k2 k3 assms by simp
  then obtain cl4 l4 where s4: "withdraw server_exch amt cl3 l2 = Some (Ret (), [InfoWithdrawn x], cl4, l4)"
    and k4: "alive cl4" "screen cl4 = MainScreen" "panel cl4" "lconn l4 = Open" "current_user (lss l4) = Some u"
      "accounts (lsrv l4) = debit (accounts srv) u x" by blast
  let ?a' = "a\<lparr>balance := py_sub (balance a) x\<rparr>"
  have a': "accounts (lsrv l4) u = Some ?a'" using k4(6) assms(1) by (simp add: debit_def)
  have x': "exact_num (balance ?a')" using exact_num_py_sub [OF assms(5) py_float_exact [OF assms(6)]] by simp
  obtain cl5 l5 where s5: "check_balance server_exch cl4 l4 =
      Some (Ret (), [InfoBalance (float_sub (to_float (balance a)) x)], cl5, l5)"
    using check_balance_run [OF k4(1,4,5) u a' x'] by (simp add: py_sub_def)
  have "client_main server_exch close_link True [Login u p, CheckBalance, OpenWithdraw, Withdraw amt, CheckBalance] l0 =
    Some ([InfoBalance (to_float (balance a)), InfoWithdrawn x, InfoBalance (float_sub (to_float (balance a)) x)], cl5, l5)"
    using k1 k2 k3 k4 by (simp add: client_main_def client_init_reachable i callback_def s1 s2 s3 s4 s5)
  then show ?thesis by (simp add: gui_session_def l0_def)
qed

theorem gui_withdraw_then_balance_witness:
  "accounts demo_srv ''alice'' = Some alice_acct \<and> password alice_acct = ''secret'' \<and>
   py_word ''alice'' \<and> py_word ''secret'' \<and> exact_num (balance alice_acct) \<and>
   py_float ''40'' = Inr (Fin 40) \<and> py_ge (balance alice_acct) (Fin 40) \<and> fs demo_srv = FsOk \<and>
   map_option (\<lambda>(ds, cl, l). ds)
     (gui_session demo_srv [Login ''alice'' ''secret'', CheckBalance, OpenWithdraw, Withdraw ''40'', CheckBalance]) =
   Some [InfoBalance (to_float (balance alice_acct)), InfoWithdrawn (Fin 40),
     InfoBalance (float_sub (to_float (balance alice_acct)) (Fin 40))]"
proof -
  have h: "accounts demo_srv ''alice'' = Some alice_acct \<and> password alice_acct = ''secret'' \<and>
     py_word ''alice'' \<and> py_word ''secret'' \<and> py_float ''40'' = Inr (Fin 40) \<and>
     py_ge (balance alice_acct) (Fin 40) \<and> fs demo_srv = FsOk"
    by (simp add: demo_defs py_word_def py_isspace_def py_float_eval py_ge_def)
  have x: "exact_num (balance alice_acct)" unfolding demo_defs by code_simp
  from h x gui_withdraw_then_balance [of demo_srv "''alice''" alice_acct "''secret''" "''40''" "Fin 40"]
  show ?thesis by simp
qed

end
